theory Spec2Isabelle
  imports Complex_Main "HOL-Library.Multiset"
begin

section \<open>Python values\<close>

text \<open>
  \<open>str(n)\<close> of a Python \<open>int\<close>, which is also what an f-string writes for it: the
  decimal digits, with a leading minus sign for a negative number.
\<close>

definition digit_char :: "nat \<Rightarrow> char" where
  "digit_char d = ''0123456789'' ! d"

function str_nat :: "nat \<Rightarrow> string" where
  "str_nat n = (if n < 10 then [digit_char n] else str_nat (n div 10) @ [digit_char (n mod 10)])"
  by pat_completeness auto
termination
  by (relation "measure (\<lambda>n. n)") auto

definition str_int :: "int \<Rightarrow> string" where
  "str_int i = (if i < 0 then CHR ''-'' # str_nat (nat (- i)) else str_nat (nat i))"

text \<open>
  \<open>int(s)\<close> of a Python \<open>str\<close>: white space around the number is ignored, a sign may
  lead, and digits may be separated by single underscores; anything else raises
  \<open>ValueError\<close>, here \<open>None\<close>. (Only ASCII white space and digits are recognised.)
\<close>

definition is_space :: "char \<Rightarrow> bool" where
  "is_space c = (c \<in> set [CHR '' '', CHR 0x09, CHR 0x0A, CHR 0x0B, CHR 0x0C, CHR 0x0D])"

definition strip :: "string \<Rightarrow> string" where
  "strip s = rev (dropWhile is_space (rev (dropWhile is_space s)))"

definition digit_val :: "char \<Rightarrow> nat option" where
  "digit_val c = (if c \<in> set ''0123456789'' then Some (of_char c - 48) else None)"

fun parse_digits :: "nat \<Rightarrow> string \<Rightarrow> nat option" where
  "parse_digits acc [] = Some acc"
| "parse_digits acc [c] = map_option (\<lambda>d. 10 * acc + d) (digit_val c)"
| "parse_digits acc (c # c' # cs) =
     (case digit_val c of
        None \<Rightarrow> None
      | Some d \<Rightarrow>
          if c' = CHR ''_'' then (if cs = [] then None else parse_digits (10 * acc + d) cs)
          else parse_digits (10 * acc + d) (c' # cs))"

definition py_int :: "string \<Rightarrow> int option" where
  "py_int s =
     (case strip s of
        [] \<Rightarrow> None
      | c # cs \<Rightarrow>
          if c = CHR ''-'' then (if cs = [] then None else map_option (\<lambda>n. - int n) (parse_digits 0 cs))
          else if c = CHR ''+'' then (if cs = [] then None else map_option int (parse_digits 0 cs))
          else map_option int (parse_digits 0 (c # cs)))"

section \<open>Exceptions\<close>

text \<open>
  The Python exceptions that the modelled code can raise or catch. A function that may
  raise returns a sum: \<open>Inl\<close> carries the exception, \<open>Inr\<close> the ordinary result.
\<close>

datatype exn =
    StopIteration          \<comment> \<open>\<open>next(iter(d))\<close> on an empty dict\<close>
  | OperationalError       \<comment> \<open>sqlite3: the statement or the connection failed\<close>
  | ProgrammingError       \<comment> \<open>sqlite3: the bindings do not fit the statement\<close>
  | NotFound               \<comment> \<open>discord.NotFound\<close>
  | HTTPException          \<comment> \<open>discord.HTTPException other than NotFound\<close>

section \<open>services/cache.py\<close>

text \<open>
  \<open>CacheEntry\<close> is the dataclass of the source. \<open>CacheService\<close> keeps the fields
  \<open>max_size\<close>, \<open>default_ttl\<close> and the \<open>OrderedDict\<close> \<open>_cache\<close>, here an association
  list in dictionary order (front = oldest). The lock, the logger and the statistics
  counters \<open>_stats\<close> carry no behaviour of the operations and are left out. Every
  reading of \<open>time.time()\<close> is the argument \<open>now\<close>.
\<close>

record 'v CacheEntry =
  entry_value :: 'v
  created_at :: real
  ttl :: "real option"

record 'v CacheService =
  max_size :: int
  default_ttl :: int
  cache :: "(string \<times> 'v CacheEntry) list"

definition is_expired :: "real \<Rightarrow> 'v CacheEntry \<Rightarrow> bool" where
  "is_expired now e =
     (case ttl e of None \<Rightarrow> False | Some t \<Rightarrow> now > created_at e + t)"

text \<open>\<open>del d[key]\<close> and \<open>d.move_to_end(key)\<close> of an ordered dictionary.\<close>

definition dict_del :: "'k \<Rightarrow> ('k \<times> 'a) list \<Rightarrow> ('k \<times> 'a) list" where
  "dict_del key d = filter (\<lambda>kv. fst kv \<noteq> key) d"

definition move_to_end :: "'k \<Rightarrow> ('k \<times> 'a) list \<Rightarrow> ('k \<times> 'a) list" where
  "move_to_end key d =
     (case map_of d key of None \<Rightarrow> d | Some e \<Rightarrow> dict_del key d @ [(key, e)])"

text \<open>\<open>d[key] = e\<close>: an existing key keeps its place, a new key goes to the end.\<close>

definition dict_set :: "'k \<Rightarrow> 'a \<Rightarrow> ('k \<times> 'a) list \<Rightarrow> ('k \<times> 'a) list" where
  "dict_set key e d =
     (if key \<in> fst ` set d
      then map (\<lambda>kv. if fst kv = key then (key, e) else kv) d
      else d @ [(key, e)])"

definition CacheService_get ::
  "string \<Rightarrow> real \<Rightarrow> 'v CacheService \<Rightarrow> 'v option \<times> 'v CacheService" where
  "CacheService_get key now c =
     (case map_of (cache c) key of
        None \<Rightarrow> (None, c)
      | Some entry \<Rightarrow>
          if is_expired now entry
          then (None, c\<lparr>cache := dict_del key (cache c)\<rparr>)
          else (Some (entry_value entry), c\<lparr>cache := move_to_end key (cache c)\<rparr>))"

text \<open>
  \<open>_evict_if_needed\<close>: while the dictionary is longer than \<open>max_size\<close>, delete its
  first key. On an empty dictionary \<open>next(iter(...))\<close> raises \<open>StopIteration\<close>, which
  happens exactly when \<open>max_size\<close> is negative.
\<close>

fun evict :: "int \<Rightarrow> ('k \<times> 'a) list \<Rightarrow> exn + ('k \<times> 'a) list" where
  "evict m [] = (if 0 > m then Inl StopIteration else Inr [])"
| "evict m (kv # d) =
     (if int (length (kv # d)) > m then evict m d else Inr (kv # d))"

definition evict_if_needed :: "'v CacheService \<Rightarrow> exn + 'v CacheService" where
  "evict_if_needed c =
     (case evict (max_size c) (cache c) of
        Inl e \<Rightarrow> Inl e
      | Inr d \<Rightarrow> Inr (c\<lparr>cache := d\<rparr>))"

definition new_entry :: "'v \<Rightarrow> int option \<Rightarrow> real \<Rightarrow> 'v CacheService \<Rightarrow> 'v CacheEntry" where
  "new_entry v ttl_arg now c =
     \<lparr>entry_value = v, created_at = now,
      ttl = Some (real_of_int (case ttl_arg of None \<Rightarrow> default_ttl c | Some t \<Rightarrow> t))\<rparr>"

definition CacheService_set ::
  "string \<Rightarrow> 'v \<Rightarrow> int option \<Rightarrow> real \<Rightarrow> 'v CacheService \<Rightarrow> exn + 'v CacheService" where
  "CacheService_set key v ttl_arg now c =
     evict_if_needed
       (c\<lparr>cache := dict_set key (new_entry v ttl_arg now c) (dict_del key (cache c))\<rparr>)"

definition CacheService_delete ::
  "string \<Rightarrow> 'v CacheService \<Rightarrow> bool \<times> 'v CacheService" where
  "CacheService_delete key c =
     (if key \<in> fst ` set (cache c)
      then (True, c\<lparr>cache := dict_del key (cache c)\<rparr>)
      else (False, c))"

definition CacheService_clear :: "'v CacheService \<Rightarrow> 'v CacheService" where
  "CacheService_clear c = c\<lparr>cache := []\<rparr>"

definition cleanup_expired :: "real \<Rightarrow> 'v CacheService \<Rightarrow> nat \<times> 'v CacheService" where
  "cleanup_expired now c =
     (let expired_keys = map fst (filter (\<lambda>kv. is_expired now (snd kv)) (cache c))
      in (length expired_keys, c\<lparr>cache := fold dict_del expired_keys (cache c)\<rparr>))"

definition has_key :: "string \<Rightarrow> real \<Rightarrow> 'v CacheService \<Rightarrow> bool \<times> 'v CacheService" where
  "has_key key now c =
     (case map_of (cache c) key of
        None \<Rightarrow> (False, c)
      | Some entry \<Rightarrow>
          if is_expired now entry
          then (False, c\<lparr>cache := dict_del key (cache c)\<rparr>)
          else (True, c))"

definition CacheService_refresh ::
  "string \<Rightarrow> int option \<Rightarrow> real \<Rightarrow> 'v CacheService \<Rightarrow> bool \<times> 'v CacheService" where
  "CacheService_refresh key ttl_arg now c =
     (case map_of (cache c) key of
        None \<Rightarrow> (False, c)
      | Some entry \<Rightarrow>
          if is_expired now entry
          then (False, c\<lparr>cache := dict_del key (cache c)\<rparr>)
          else (True,
                c\<lparr>cache := move_to_end key
                   (dict_set key
                      (entry\<lparr>created_at := now,
                         ttl := Some (real_of_int
                            (case ttl_arg of None \<Rightarrow> default_ttl c | Some t \<Rightarrow> t))\<rparr>)
                      (cache c))\<rparr>))"

section \<open>database/manager.py: tables and statements\<close>

text \<open>
  The rows of the tables \<open>messages\<close>, \<open>voice\<close>, \<open>settings\<close> and \<open>user_cache\<close>, each table
  a list of rows in storage order. The voice row is the dataclass \<open>UserVoiceStats\<close>
  of \<open>database/models.py\<close>. The code binds integers to every integer column (a guild
  id is \<open>0\<close> for a direct message), so these columns are \<open>int\<close>; only \<open>join_time\<close> is
  ever \<open>NULL\<close>.

  \<open>faults\<close> is the outcome of the coming uses of a pooled connection, one flag for each
  use in order: \<open>True\<close> means sqlite3 raises there. An empty list means no failure.
\<close>

record message_row =
  m_user_id :: int
  m_guild_id :: int
  m_channel_id :: int
  m_count :: int
  m_last_updated :: int

record UserVoiceStats =
  user_id :: int
  guild_id :: int
  total_time :: int
  join_time :: "int option"
  last_updated :: int

record setting_row =
  s_key :: string
  s_value :: string
  s_updated_at :: int

record user_cache_row =
  uc_user_id :: int
  uc_username :: string
  uc_discriminator :: string
  uc_cached_at :: int

record database =
  messages :: "message_row list"
  voice :: "UserVoiceStats list"
  settings :: "setting_row list"
  user_cache :: "user_cache_row list"
  faults :: "bool list"




text \<open>
  The statements that are queued for the batched writer, named for their SQL text:
  \<^item> \<open>InsertMessage\<close>: \<open>INSERT OR REPLACE INTO messages (user_id, guild_id, channel_id,
    count, last_updated) VALUES (?, ?, ?, COALESCE((SELECT count FROM messages WHERE
    user_id = ? AND guild_id = ?), 0) + 1, ?)\<close>
  \<^item> \<open>InsertVoice\<close>: \<open>INSERT OR REPLACE INTO voice (user_id, guild_id, total_time,
    join_time, last_updated) VALUES (?, ?, COALESCE((SELECT total_time FROM voice WHERE
    user_id = ? AND guild_id = ?), 0), ?, ?)\<close>
  \<^item> \<open>UpdateVoice\<close>: \<open>UPDATE voice SET total_time = ?, join_time = NULL, last_updated = ?
    WHERE user_id = ? AND guild_id = ?\<close>
  \<^item> \<open>InsertSetting\<close>: \<open>INSERT OR REPLACE INTO settings (key, value, updated_at)
    VALUES (?, ?, ?)\<close>
  A parameter tuple is a list of bound values.
\<close>

datatype statement = InsertMessage | InsertVoice | UpdateVoice | InsertSetting

datatype sqlval = I int | T string

text \<open>
  \<open>INSERT OR REPLACE\<close> on a table with a primary key: the rows with the key of the new
  row are deleted and the new row is stored last.
\<close>

definition insert_or_replace :: "('r \<Rightarrow> 'k) \<Rightarrow> 'r \<Rightarrow> 'r list \<Rightarrow> 'r list" where
  "insert_or_replace key r rows = filter (\<lambda>x. key x \<noteq> key r) rows @ [r]"

definition message_key :: "message_row \<Rightarrow> int \<times> int" where
  "message_key r = (m_user_id r, m_guild_id r)"

definition voice_key :: "UserVoiceStats \<Rightarrow> int \<times> int" where
  "voice_key r = (user_id r, guild_id r)"

definition select_message :: "int \<Rightarrow> int \<Rightarrow> database \<Rightarrow> message_row option" where
  "select_message u g db = find (\<lambda>r. message_key r = (u, g)) (messages db)"

definition select_voice :: "int \<Rightarrow> int \<Rightarrow> database \<Rightarrow> UserVoiceStats option" where
  "select_voice u g db = find (\<lambda>r. voice_key r = (u, g)) (voice db)"

text \<open>
  One execution of a statement with one parameter tuple. A tuple that does not fit the
  statement's placeholders raises \<open>ProgrammingError\<close>.
\<close>

fun as_int :: "sqlval \<Rightarrow> int option" where
  "as_int (I i) = Some i"
| "as_int (T s) = None"

fun execute :: "statement \<Rightarrow> sqlval list \<Rightarrow> database \<Rightarrow> exn + database" where
  "execute InsertMessage p db =
     (case those (map as_int p) of
        Some [u, g, c, u', g', t] \<Rightarrow>
          Inr (db\<lparr>messages := insert_or_replace message_key
             \<lparr>m_user_id = u, m_guild_id = g, m_channel_id = c,
              m_count = (case select_message u' g' db of None \<Rightarrow> 0 | Some r \<Rightarrow> m_count r) + 1,
              m_last_updated = t\<rparr> (messages db)\<rparr>)
      | _ \<Rightarrow> Inl ProgrammingError)"
| "execute InsertVoice p db =
     (case those (map as_int p) of
        Some [u, g, u', g', j, t] \<Rightarrow>
          Inr (db\<lparr>voice := insert_or_replace voice_key
             \<lparr>user_id = u, guild_id = g,
              total_time = (case select_voice u' g' db of None \<Rightarrow> 0 | Some r \<Rightarrow> total_time r),
              join_time = Some j, last_updated = t\<rparr> (voice db)\<rparr>)
      | _ \<Rightarrow> Inl ProgrammingError)"
| "execute UpdateVoice p db =
     (case those (map as_int p) of
        Some [new_total, t, u, g] \<Rightarrow>
          Inr (db\<lparr>voice := map (\<lambda>r. if voice_key r = (u, g)
             then r\<lparr>total_time := new_total, join_time := None, last_updated := t\<rparr>
             else r) (voice db)\<rparr>)
      | _ \<Rightarrow> Inl ProgrammingError)"
| "execute InsertSetting p db =
     (case p of
        [T k, T v, I t] \<Rightarrow>
          Inr (db\<lparr>settings := insert_or_replace s_key
             \<lparr>s_key = k, s_value = v, s_updated_at = t\<rparr> (settings db)\<rparr>)
      | _ \<Rightarrow> Inl ProgrammingError)"

text \<open>
  \<open>cursor.executemany\<close>: the statement once for each tuple, in order. When a tuple
  raises, the tuples before it have been executed: the result is the exception together
  with the tables as the connection then holds them.
\<close>

fun executemany :: "statement \<Rightarrow> sqlval list list \<Rightarrow> database \<Rightarrow> exn option \<times> database" where
  "executemany q [] db = (None, db)"
| "executemany q (p # ps) db =
     (case execute q p db of Inl e \<Rightarrow> (Some e, db) | Inr db' \<Rightarrow> executemany q ps db')"

text \<open>
  The executions of single statements, each with its tuple, in order, up to the first
  that raises.
\<close>

fun execute_all :: "(statement \<times> sqlval list) list \<Rightarrow> database \<Rightarrow> exn option \<times> database" where
  "execute_all [] db = (None, db)"
| "execute_all ((q, p) # qps) db =
     (case execute q p db of Inl e \<Rightarrow> (Some e, db) | Inr db' \<Rightarrow> execute_all qps db')"

section \<open>database/manager.py: the batched writer\<close>

record ('q, 'p) BatchOperation =
  query :: 'q
  params :: "'p list"
  operation_type :: string

text \<open>
  The grouping loop of \<open>_execute_batch_operations\<close>. \<open>grouped_ops\<close> is a Python dict,
  here an association list in insertion order.
  \<^verbatim>\<open>
    for op in operations:
        key = (op.query, op.operation_type)
        if key not in grouped_ops:
            grouped_ops[key] = []
        grouped_ops[key].extend(op.params)
  \<close>
\<close>

text \<open>The key under which an operation is grouped.\<close>

abbreviation (input) opkey :: "('q, 'p) BatchOperation \<Rightarrow> 'q \<times> string" where
  "opkey op \<equiv> (query op, operation_type op)"

definition group_step ::
  "('q, 'p) BatchOperation \<Rightarrow> (('q \<times> string) \<times> 'p list) list \<Rightarrow> (('q \<times> string) \<times> 'p list) list" where
  "group_step op grouped_ops =
     (let key = (query op, operation_type op);
          g = (if key \<notin> fst ` set grouped_ops then dict_set key [] grouped_ops else grouped_ops)
      in case map_of g key of
           None \<Rightarrow> g
         | Some ps \<Rightarrow> dict_set key (ps @ params op) g)"

definition group_operations ::
  "('q, 'p) BatchOperation list \<Rightarrow> (('q \<times> string) \<times> 'p list) list" where
  "group_operations operations = fold group_step operations []"

text \<open>
  The calls of \<open>cursor.executemany\<close> that the batch makes, in order: one for each group
  whose parameter list is not empty.
\<close>

definition executemany_calls :: "('q, 'p) BatchOperation list \<Rightarrow> ('q \<times> 'p list) list" where
  "executemany_calls operations =
     map (\<lambda>kv. (fst (fst kv), snd kv)) (filter (\<lambda>kv. snd kv \<noteq> []) (group_operations operations))"

fun run_calls :: "(statement \<times> sqlval list list) list \<Rightarrow> database \<Rightarrow> exn option \<times> database" where
  "run_calls [] db = (None, db)"
| "run_calls ((q, ps) # calls) db =
     (case executemany q ps db of
        (Some e, db') \<Rightarrow> (Some e, db')
      | (None, db') \<Rightarrow> run_calls calls db')"

text \<open>
  The single executions that these calls amount to, in order: group after group, each
  tuple of a group with the query of the group.
\<close>

definition batch_statements :: "('q, 'p) BatchOperation list \<Rightarrow> ('q \<times> 'p) list" where
  "batch_statements operations =
     concat (map (\<lambda>kv. map (Pair (fst (fst kv))) (snd kv)) (group_operations operations))"

text \<open>
  Taking a connection from the pool consumes one flag of \<open>faults\<close>.
\<close>

definition get_connection :: "database \<Rightarrow> bool \<times> database" where
  "get_connection db =
     (case faults db of [] \<Rightarrow> (False, db) | f # fs \<Rightarrow> (f, db\<lparr>faults := fs\<rparr>))"

text \<open>
  \<open>_execute_batch_operations\<close>: all groups run on one connection and are committed
  together at the end. When a statement raises, the exception is raised again with
  neither commit nor rollback: the tuples executed before it stay in the open
  transaction of the pooled connection and reach the tables with the next commit on that
  connection. The model has no separate view for each connection and shows these tuples
  in the tables from the failure on.
\<close>

definition execute_batch_operations ::
  "(statement, sqlval list) BatchOperation list \<Rightarrow> database \<Rightarrow> (exn + unit) \<times> database" where
  "execute_batch_operations operations db =
     (case get_connection db of
        (True, db1) \<Rightarrow> (Inl OperationalError, db1)
      | (False, db1) \<Rightarrow>
          (case run_calls (executemany_calls operations) db1 of
             (Some e, db2) \<Rightarrow> (Inl e, db2)
           | (None, db2) \<Rightarrow> (Inr (), db2)))"

text \<open>
  \<open>_process_batch_operations\<close>: the endless loop collects the queued operations of a
  time window (at most 100) and executes them as one batch when there are any; an
  exception of the batch is logged and the loop goes on. \<open>batches\<close> is the sequence of
  the collected lists, one for each round of the loop.
\<close>

definition process_round ::
  "(statement, sqlval list) BatchOperation list \<Rightarrow> database \<Rightarrow> database" where
  "process_round operations db =
     (if operations \<noteq> [] then snd (execute_batch_operations operations db) else db)"

definition process_batch_operations ::
  "(statement, sqlval list) BatchOperation list list \<Rightarrow> database \<Rightarrow> database" where
  "process_batch_operations batches db = fold process_round batches db"

text \<open>
  \<open>queue_batch_operation\<close> puts a \<open>BatchOperation\<close> on the queue; the functions below
  return the operation they queue.
\<close>

definition increment_message_count ::
  "int \<Rightarrow> int \<Rightarrow> int \<Rightarrow> int \<Rightarrow> (statement, sqlval list) BatchOperation" where
  "increment_message_count u g c now =
     \<lparr>query = InsertMessage, params = [[I u, I g, I c, I u, I g, I now]],
      operation_type = ''update''\<rparr>"

definition update_voice_join :: "int \<Rightarrow> int \<Rightarrow> int \<Rightarrow> (statement, sqlval list) BatchOperation" where
  "update_voice_join u g now =
     \<lparr>query = InsertVoice, params = [[I u, I g, I u, I g, I now, I now]],
      operation_type = ''update''\<rparr>"

definition set_setting :: "string \<Rightarrow> string \<Rightarrow> int \<Rightarrow> (statement, sqlval list) BatchOperation" where
  "set_setting k v now =
     \<lparr>query = InsertSetting, params = [[T k, T v, I now]], operation_type = ''update''\<rparr>"

text \<open>
  The count that the \<open>stats\<close> command of \<open>cogs/leaderboard_cog.py\<close> reads:
  \<open>SELECT count FROM messages WHERE user_id = ? AND guild_id = ?\<close>, and \<open>0\<close> when
  there is no row.
\<close>

definition message_count :: "int \<Rightarrow> int \<Rightarrow> database \<Rightarrow> int" where
  "message_count u g db = (case select_message u g db of None \<Rightarrow> 0 | Some r \<Rightarrow> m_count r)"

text \<open>
  Abbreviations for stating properties: the operation and the parameter tuple of an
  increment given as (user, guild, channel, time), and the number of increments in a
  list that are for user \<open>u\<close> in guild \<open>g\<close>.
\<close>

definition inc_params :: "int \<times> int \<times> int \<times> int \<Rightarrow> sqlval list" where
  "inc_params x = (case x of (u, g, c, t) \<Rightarrow> [I u, I g, I c, I u, I g, I t])"

definition inc_op :: "int \<times> int \<times> int \<times> int \<Rightarrow> (statement, sqlval list) BatchOperation" where
  "inc_op x = (case x of (u, g, c, t) \<Rightarrow> increment_message_count u g c t)"

definition hits :: "int \<Rightarrow> int \<Rightarrow> (int \<times> int \<times> int \<times> int) list \<Rightarrow> int" where
  "hits u g xs = int (length (filter (\<lambda>x. fst x = u \<and> fst (snd x) = g) xs))"

section \<open>database/manager.py: single queries\<close>

text \<open>
  \<open>execute_query\<close> takes a connection from the pool, executes one statement, fetches its
  result or commits, and raises again whatever the database raises. \<open>stmt\<close> is the
  statement with its parameters bound: it maps the tables to the fetched result and the
  tables after the statement.
\<close>

definition execute_query :: "(database \<Rightarrow> 'a \<times> database) \<Rightarrow> database \<Rightarrow> (exn + 'a) \<times> database" where
  "execute_query stmt db =
     (case get_connection db of
        (True, db1) \<Rightarrow> (Inl OperationalError, db1)
      | (False, db1) \<Rightarrow> (case stmt db1 of (r, db2) \<Rightarrow> (Inr r, db2)))"

text \<open>
  \<open>ORDER BY v DESC\<close> and \<open>LIMIT k\<close>. SQL leaves the order of rows with equal \<open>v\<close> open;
  SQLite's sort keeps them in the order in which they reach it: the storage order of the
  table's rows for the query of one guild, the ascending order of \<open>user_id\<close> for the
  grouped query. SQLite reads a negative \<open>LIMIT\<close> as no limit.
\<close>

definition order_by_desc :: "('r \<Rightarrow> int) \<Rightarrow> 'r list \<Rightarrow> 'r list" where
  "order_by_desc v rows = sort_key (\<lambda>r. - v r) rows"

definition sql_limit :: "int \<Rightarrow> 'r list \<Rightarrow> 'r list" where
  "sql_limit k rows = (if k < 0 then rows else take (nat k) rows)"

text \<open>
  \<open>SELECT key, SUM(v) ... GROUP BY key\<close> over rows \<open>(key, v)\<close>: one row for each key.
  SQLite forms the groups by sorting on the key, so it yields them in ascending order of
  the key.
\<close>

definition group_by_sum :: "(int \<times> int) list \<Rightarrow> (int \<times> int) list" where
  "group_by_sum rows =
     map (\<lambda>u. (u, sum_list (map snd (filter (\<lambda>r. fst r = u) rows))))
       (sort (remdups (map fst rows)))"

text \<open>
  The rows that the two leaderboard queries rank, before \<open>ORDER BY\<close> and \<open>LIMIT\<close>. Python's
  \<open>if guild_id:\<close> takes the guild branch for an id that is neither \<open>None\<close> nor \<open>0\<close>.
\<close>

definition message_candidates :: "int option \<Rightarrow> database \<Rightarrow> (int \<times> int) list" where
  "message_candidates guild db =
     (case guild of
        Some g \<Rightarrow>
          if g \<noteq> 0
          then map (\<lambda>r. (m_user_id r, m_count r)) (filter (\<lambda>r. m_guild_id r = g) (messages db))
          else group_by_sum (map (\<lambda>r. (m_user_id r, m_count r)) (messages db))
      | None \<Rightarrow> group_by_sum (map (\<lambda>r. (m_user_id r, m_count r)) (messages db)))"

definition DatabaseManager_get_message_leaderboard ::
  "int option \<Rightarrow> int \<Rightarrow> database \<Rightarrow> (exn + (int \<times> int) list) \<times> database" where
  "DatabaseManager_get_message_leaderboard guild limit db =
     execute_query (\<lambda>d. (sql_limit limit (order_by_desc snd (message_candidates guild d)), d)) db"

text \<open>
  \<open>CASE WHEN join_time IS NOT NULL THEN total_time + (? - join_time) ELSE total_time END\<close>
\<close>

definition current_total :: "int \<Rightarrow> UserVoiceStats \<Rightarrow> int" where
  "current_total now r =
     (case join_time r of Some j \<Rightarrow> total_time r + (now - j) | None \<Rightarrow> total_time r)"

definition voice_candidates :: "int option \<Rightarrow> int \<Rightarrow> database \<Rightarrow> (int \<times> int) list" where
  "voice_candidates guild now db =
     (case guild of
        Some g \<Rightarrow>
          if g \<noteq> 0
          then map (\<lambda>r. (user_id r, current_total now r)) (filter (\<lambda>r. guild_id r = g) (voice db))
          else group_by_sum (map (\<lambda>r. (user_id r, current_total now r)) (voice db))
      | None \<Rightarrow> group_by_sum (map (\<lambda>r. (user_id r, current_total now r)) (voice db)))"

definition DatabaseManager_get_voice_leaderboard ::
  "int option \<Rightarrow> int \<Rightarrow> int \<Rightarrow> database \<Rightarrow> (exn + (int \<times> int) list) \<times> database" where
  "DatabaseManager_get_voice_leaderboard guild limit now db =
     execute_query (\<lambda>d. (sql_limit limit (order_by_desc snd (voice_candidates guild now d)), d)) db"


definition get_setting :: "string \<Rightarrow> database \<Rightarrow> (exn + string option) \<times> database" where
  "get_setting k db =
     execute_query (\<lambda>d. (map_option s_value (find (\<lambda>r. s_key r = k) (settings d)), d)) db"

text \<open>
  The class defines \<open>get_cached_user\<close>, \<open>cache_user\<close> and \<open>cleanup_old_data\<close> twice; the
  later definitions are the ones in effect, and \<open>cache_user\<close> then writes with
  \<open>execute_query\<close>, not through the queue.
\<close>

definition get_cached_user :: "int \<Rightarrow> database \<Rightarrow> (exn + (string \<times> string) option) \<times> database" where
  "get_cached_user u db =
     execute_query (\<lambda>d. (map_option (\<lambda>r. (uc_username r, uc_discriminator r))
        (find (\<lambda>r. uc_user_id r = u) (user_cache d)), d)) db"

definition cache_user :: "int \<Rightarrow> string \<Rightarrow> string \<Rightarrow> int \<Rightarrow> database \<Rightarrow> (exn + unit) \<times> database" where
  "cache_user u username discriminator now db =
     execute_query (\<lambda>d. ((), d\<lparr>user_cache := insert_or_replace uc_user_id
        \<lparr>uc_user_id = u, uc_username = username, uc_discriminator = discriminator,
         uc_cached_at = now\<rparr> (user_cache d)\<rparr>)) db"

text \<open>
  \<open>reset_leaderboard_data\<close>: four statements, each executed and committed by its own
  \<open>execute_query\<close>; the first exception ends the function and is raised again.
\<close>

definition reset_leaderboard_data :: "int \<Rightarrow> database \<Rightarrow> (exn + unit) \<times> database" where
  "reset_leaderboard_data current_time db =
     (case execute_query (\<lambda>d. ((), d\<lparr>messages := []\<rparr>)) db of
        (Inl e, db1) \<Rightarrow> (Inl e, db1)
      | (Inr _, db1) \<Rightarrow>
     (case execute_query (\<lambda>d. ((), d\<lparr>voice := []\<rparr>)) db1 of
        (Inl e, db2) \<Rightarrow> (Inl e, db2)
      | (Inr _, db2) \<Rightarrow>
     (case execute_query (\<lambda>d. ((), d\<lparr>user_cache :=
              filter (\<lambda>r. \<not> uc_cached_at r < current_time - 7 * 24 * 3600) (user_cache d)\<rparr>)) db2 of
        (Inl e, db3) \<Rightarrow> (Inl e, db3)
      | (Inr _, db3) \<Rightarrow>
          execute_query (\<lambda>d. ((), d\<lparr>settings := insert_or_replace s_key
             \<lparr>s_key = ''last_leaderboard_reset'', s_value = str_int current_time,
              s_updated_at = current_time\<rparr> (settings d)\<rparr>)) db3)))"

text \<open>
  \<open>should_reset_leaderboard\<close>: every exception (of the query, or \<open>ValueError\<close> of
  \<open>int(last_reset)\<close>) is caught and answers \<open>False\<close>. \<open>not last_reset\<close> holds for \<open>None\<close>
  and for the empty string.
\<close>

definition should_reset_leaderboard :: "int \<Rightarrow> int \<Rightarrow> database \<Rightarrow> bool \<times> database" where
  "should_reset_leaderboard refresh_days current_time db =
     (case get_setting ''last_leaderboard_reset'' db of
        (Inl e, db1) \<Rightarrow> (False, db1)
      | (Inr None, db1) \<Rightarrow> (True, db1)
      | (Inr (Some last_reset), db1) \<Rightarrow>
          if last_reset = [] then (True, db1)
          else (case py_int last_reset of
                  None \<Rightarrow> (False, db1)
                | Some last_reset_time \<Rightarrow>
                    (real_of_int (current_time - last_reset_time) / (24 * 3600)
                       \<ge> real_of_int refresh_days, db1)))"

text \<open>
  What it means for \<open>rows\<close> to be the top \<open>k\<close> of the ranked rows \<open>candidates\<close> (pairs of
  a user and a ranking value).
\<close>

abbreviation (input) top_k_of :: "int \<Rightarrow> (int \<times> int) list \<Rightarrow> (int \<times> int) list \<Rightarrow> bool" where
  "top_k_of k candidates rows \<equiv>
     (int (length rows) \<le> k \<and>
      sorted_wrt (\<lambda>a b. snd a \<ge> snd b) rows \<and>
      (\<exists>ranked. rows = take (nat k) ranked \<and> mset ranked = mset candidates \<and>
         sorted_wrt (\<lambda>a b. snd a \<ge> snd b) ranked \<and>
         (\<forall>v. filter (\<lambda>r. snd r = v) ranked = filter (\<lambda>r. snd r = v) candidates)))"


section \<open>database/models.py: leaderboard entries\<close>

record LeaderboardEntry =
  e_position :: int
  e_user_id :: int
  e_username :: string
  e_value :: int
  e_formatted_value :: string

text \<open>The format \<open>{count:,}\<close>: decimal digits in groups of three, separated by commas.\<close>

fun group3 :: "string \<Rightarrow> string" where
  "group3 (a # b # c # d # ds) = a # b # c # CHR '','' # group3 (d # ds)"
| "group3 ds = ds"

definition format_thousands :: "int \<Rightarrow> string" where
  "format_thousands i =
     (if i < 0 then CHR ''-'' # rev (group3 (rev (str_nat (nat (- i)))))
      else rev (group3 (rev (str_nat (nat i)))))"

definition create_message_entry :: "int \<Rightarrow> int \<Rightarrow> string \<Rightarrow> int \<Rightarrow> LeaderboardEntry" where
  "create_message_entry pos u username n =
     \<lparr>e_position = pos, e_user_id = u, e_username = username, e_value = n,
      e_formatted_value = format_thousands n @ '' messages''\<rparr>"

definition create_voice_entry :: "int \<Rightarrow> int \<Rightarrow> string \<Rightarrow> int \<Rightarrow> LeaderboardEntry" where
  "create_voice_entry pos u username total_seconds =
     (let hours = total_seconds div 3600;
          minutes = (total_seconds mod 3600) div 60
      in \<lparr>e_position = pos, e_user_id = u, e_username = username, e_value = total_seconds,
           e_formatted_value =
             (if hours > 0 then str_int hours @ ''h '' @ str_int minutes @ ''m''
              else str_int minutes @ ''m'')\<rparr>)"

section \<open>services/leaderboard.py\<close>

text \<open>
  The chat platform as the service sees it. \<open>get_user\<close> reads the client's own cache,
  \<open>fetch_user\<close> asks the platform and may raise \<open>NotFound\<close> or another
  \<open>HTTPException\<close>, and each guild's \<open>get_member\<close> returns a member or raises.
\<close>

record discord_user =
  global_name :: "string option"
  display_name :: string
  name :: string
  discriminator :: string

record bot =
  get_user :: "int \<Rightarrow> discord_user option"
  fetch_user :: "int \<Rightarrow> exn + discord_user option"
  guilds :: "(int \<Rightarrow> exn + discord_user option) list"

record Config =
  ENABLE_MESSAGE_TRACKING :: bool
  LEADERBOARD_SIZE :: int
  LEADERBOARD_REFRESH_DAYS :: int
  RATE_LIMIT_MESSAGES :: int
  RATE_LIMIT_WINDOW :: int

text \<open>
  The state of the service and of what it holds: the database, the queue of the batched
  writer, the cache (its values are lists of leaderboard entries), the rate-limit
  tracker and the bot reference (\<open>None\<close> until \<open>set_bot\<close>). The metrics counters are left
  out.
\<close>

record service =
  db_manager :: database
  batch_queue :: "(statement, sqlval list) BatchOperation list"
  cache_service :: "LeaderboardEntry list CacheService"
  rate_limit_tracker :: "(string \<times> real list) list"
  bot_ref :: "bot option"

text \<open>\<open>int(time.time())\<close> truncates towards zero.\<close>

definition py_trunc :: "real \<Rightarrow> int" where
  "py_trunc x = (if x \<ge> 0 then \<lfloor>x\<rfloor> else \<lceil>x\<rceil>)"

text \<open>\<open>a or b\<close> on strings: \<open>a\<close> unless it is empty.\<close>

definition str_or :: "string \<Rightarrow> string \<Rightarrow> string" where
  "str_or a b = (if a \<noteq> [] then a else b)"

text \<open>\<open>user.global_name or user.display_name or user.name\<close>\<close>

definition best_name :: "discord_user \<Rightarrow> string" where
  "best_name user =
     (case global_name user of
        Some n \<Rightarrow> if n \<noteq> [] then n else str_or (display_name user) (name user)
      | None \<Rightarrow> str_or (display_name user) (name user))"

text \<open>
  \<open>_cache_user_if_needed\<close>: every exception inside is caught and logged, so the
  function only changes the database.
\<close>

definition cache_user_if_needed :: "bot option \<Rightarrow> int \<Rightarrow> int \<Rightarrow> database \<Rightarrow> database" where
  "cache_user_if_needed b u now d =
     (case get_cached_user u d of
        (Inl e, d1) \<Rightarrow> d1
      | (Inr (Some cached), d1) \<Rightarrow> d1
      | (Inr None, d1) \<Rightarrow>
          (case b of
             None \<Rightarrow> d1
           | Some bt \<Rightarrow>
               (case get_user bt u of
                  None \<Rightarrow> d1
                | Some user \<Rightarrow>
                    snd (cache_user u (str_or (display_name user) (name user))
                           (if discriminator user \<noteq> ''0'' then discriminator user else [])
                           now d1))))"

text \<open>
  \<open>_get_username\<close>. The loop over the guilds of the bot: the first guild that has the
  member gives the name; a guild whose lookup raises is skipped.
\<close>

fun guild_member_name ::
  "bot option \<Rightarrow> (int \<Rightarrow> exn + discord_user option) list \<Rightarrow> int \<Rightarrow> int \<Rightarrow> database \<Rightarrow>
     string option \<times> database" where
  "guild_member_name b [] u now d = (None, d)"
| "guild_member_name b (get_member # gs) u now d =
     (case get_member u of
        Inr (Some member) \<Rightarrow> (Some (best_name member), cache_user_if_needed b u now d)
      | _ \<Rightarrow> guild_member_name b gs u now d)"

text \<open>The last part of \<open>_get_username\<close>: the name from the \<open>user_cache\<close> table.\<close>

definition cached_username :: "int \<Rightarrow> database \<Rightarrow> (exn + string) \<times> database" where
  "cached_username u d =
     (case get_cached_user u d of
        (Inl e, d1) \<Rightarrow> (Inl e, d1)
      | (Inr None, d1) \<Rightarrow> (Inr ''Unknown User'', d1)
      | (Inr (Some (username, discr)), d1) \<Rightarrow>
          if username \<noteq> [] \<and> username \<noteq> ''User '' @ str_int u
          then (if discr \<noteq> [] \<and> discr \<noteq> ''0''
                then (Inr (username @ ''#'' @ discr), d1)
                else (Inr username, d1))
          else (Inr ''Unknown User'', d1))"

text \<open>
  The body of the outer \<open>try\<close> of \<open>_get_username\<close>. The inner \<open>try\<close> around
  \<open>fetch_user\<close> catches \<open>discord.NotFound\<close> only; any other exception of \<open>fetch_user\<close>
  leaves the body.
\<close>

definition guilds_then_cache :: "bot \<Rightarrow> int \<Rightarrow> int \<Rightarrow> database \<Rightarrow> (exn + string) \<times> database" where
  "guilds_then_cache bt u now d =
     (case guild_member_name (Some bt) (guilds bt) u now d of
        (Some n, d1) \<Rightarrow> (Inr n, d1)
      | (None, d1) \<Rightarrow> cached_username u d1)"

definition get_username_try :: "bot option \<Rightarrow> int \<Rightarrow> int \<Rightarrow> database \<Rightarrow> (exn + string) \<times> database" where
  "get_username_try b u now d =
     (case b of
        None \<Rightarrow> cached_username u d
      | Some bt \<Rightarrow>
          (case get_user bt u of
             Some user \<Rightarrow> (Inr (best_name user), cache_user_if_needed b u now d)
           | None \<Rightarrow>
               (case fetch_user bt u of
                  Inr (Some user) \<Rightarrow> (Inr (best_name user), cache_user_if_needed b u now d)
                | Inr None \<Rightarrow> guilds_then_cache bt u now d
                | Inl e \<Rightarrow> if e = NotFound then guilds_then_cache bt u now d else (Inl e, d))))"

text \<open>\<open>_get_username\<close>: the outer \<open>except Exception\<close> answers the placeholder.\<close>

definition get_username :: "bot option \<Rightarrow> int \<Rightarrow> int \<Rightarrow> database \<Rightarrow> string \<times> database" where
  "get_username b u now d =
     (case get_username_try b u now d of
        (Inr n, d1) \<Rightarrow> (n, d1)
      | (Inl e, d1) \<Rightarrow> (''Unknown User'', d1))"

text \<open>
  \<open>_check_rate_limit\<close>; the tracker is a dict from \<open>f"{user_id}_{operation_type}"\<close> to
  the times of the recent requests.
\<close>

definition check_rate_limit :: "Config \<Rightarrow> int \<Rightarrow> string \<Rightarrow> real \<Rightarrow> service \<Rightarrow> bool \<times> service" where
  "check_rate_limit cfg u operation current_time s =
     (let key = str_int u @ ''_'' @ operation;
          old = (case map_of (rate_limit_tracker s) key of None \<Rightarrow> [] | Some ts \<Rightarrow> ts);
          recent = filter (\<lambda>t. t > current_time - real_of_int (RATE_LIMIT_WINDOW cfg)) old
      in if int (length recent) \<ge> RATE_LIMIT_MESSAGES cfg
         then (False, s\<lparr>rate_limit_tracker := dict_set key recent (rate_limit_tracker s)\<rparr>)
         else (True, s\<lparr>rate_limit_tracker :=
                          dict_set key (recent @ [current_time]) (rate_limit_tracker s)\<rparr>))"

text \<open>The cache keys that \<open>track_message\<close> deletes.\<close>

definition track_message_cache_keys :: "int \<Rightarrow> int \<Rightarrow> string list" where
  "track_message_cache_keys u g =
     [''message_leaderboard_'' @ str_int g,
      ''message_leaderboard_global'',
      ''user_message_stats_'' @ str_int u @ ''_'' @ str_int g]"

definition track_message :: "Config \<Rightarrow> int \<Rightarrow> int \<Rightarrow> int \<Rightarrow> real \<Rightarrow> service \<Rightarrow> service" where
  "track_message cfg u g c now s =
     (if \<not> ENABLE_MESSAGE_TRACKING cfg then s
      else case check_rate_limit cfg u ''message'' now s of
             (False, s1) \<Rightarrow> s1
           | (True, s1) \<Rightarrow>
               (let s2 = s1\<lparr>batch_queue :=
                             batch_queue s1 @ [increment_message_count u g c (py_trunc now)]\<rparr>;
                    s3 = (if bot_ref s2 \<noteq> None
                          then s2\<lparr>db_manager :=
                                 cache_user_if_needed (bot_ref s2) u (py_trunc now) (db_manager s2)\<rparr>
                          else s2)
                in s3\<lparr>cache_service :=
                       fold (\<lambda>key cs. snd (CacheService_delete key cs))
                         (track_message_cache_keys u g) (cache_service s3)\<rparr>))"

text \<open>
  The first step of both leaderboard getters, which stands outside their \<open>try\<close>:
  \<^verbatim>\<open>
    if await self.db_manager.should_reset_leaderboard(self.config.LEADERBOARD_REFRESH_DAYS):
        await self.db_manager.reset_leaderboard_data()
        self.cache_service.clear()
  \<close>
\<close>

definition reset_if_due :: "Config \<Rightarrow> real \<Rightarrow> service \<Rightarrow> (exn + unit) \<times> service" where
  "reset_if_due cfg now s =
     (case should_reset_leaderboard (LEADERBOARD_REFRESH_DAYS cfg) (py_trunc now) (db_manager s) of
        (False, d1) \<Rightarrow> (Inr (), s\<lparr>db_manager := d1\<rparr>)
      | (True, d1) \<Rightarrow>
          (case reset_leaderboard_data (py_trunc now) d1 of
             (Inl e, d2) \<Rightarrow> (Inl e, s\<lparr>db_manager := d2\<rparr>)
           | (Inr _, d2) \<Rightarrow>
               (Inr (), s\<lparr>db_manager := d2,
                          cache_service := CacheService_clear (cache_service s)\<rparr>)))"

text \<open>The key under which a leaderboard is cached: \<open>f"{kind}_{guild_id or 'global'}_{limit}"\<close>.\<close>

definition leaderboard_cache_key :: "string \<Rightarrow> int option \<Rightarrow> int \<Rightarrow> string" where
  "leaderboard_cache_key kind guild limit =
     kind @ ''_'' @
     (case guild of None \<Rightarrow> ''global'' | Some g \<Rightarrow> if g \<noteq> 0 then str_int g else ''global'') @
     ''_'' @ str_int limit"

text \<open>
  The loop that turns the ranked rows into entries, with positions from \<open>pos\<close> on; each
  row looks the name up.
\<close>

fun make_entries ::
  "(int \<Rightarrow> int \<Rightarrow> string \<Rightarrow> int \<Rightarrow> LeaderboardEntry) \<Rightarrow> bot option \<Rightarrow> int \<Rightarrow> int \<Rightarrow>
     (int \<times> int) list \<Rightarrow> database \<Rightarrow> LeaderboardEntry list \<times> database" where
  "make_entries create b now pos [] d = ([], d)"
| "make_entries create b now pos ((u, v) # raw_data) d =
     (case get_username b u now d of
        (username, d1) \<Rightarrow>
          (case make_entries create b now (pos + 1) raw_data d1 of
             (entries, d2) \<Rightarrow> (create pos u username v # entries, d2)))"

text \<open>
  What the getters do after the reset step: look into the cache (\<open>if cached:\<close> holds for
  a list that is not empty), else read the ranking, build the entries and cache them;
  every exception from the ranking on is caught and answers the empty list. When
  \<open>CacheService.set\<close> raises, its eviction loop has emptied the dictionary before. The whole
  call is taken to happen at the one time \<open>now\<close>.
\<close>

definition fetch_message_leaderboard ::
  "int option \<Rightarrow> int \<Rightarrow> real \<Rightarrow> service \<Rightarrow> LeaderboardEntry list \<times> service" where
  "fetch_message_leaderboard guild limit now s =
     (let cache_key = leaderboard_cache_key ''message_leaderboard'' guild limit in
      case CacheService_get cache_key now (cache_service s) of
        (cached, cs1) \<Rightarrow>
          if cached \<noteq> None \<and> cached \<noteq> Some []
          then (the cached, s\<lparr>cache_service := cs1\<rparr>)
          else
            (case DatabaseManager_get_message_leaderboard guild limit (db_manager s) of
               (Inl e, d1) \<Rightarrow> ([], s\<lparr>cache_service := cs1, db_manager := d1\<rparr>)
             | (Inr raw_data, d1) \<Rightarrow>
                 (case make_entries create_message_entry (bot_ref s) (py_trunc now) 1 raw_data d1 of
                    (entries, d2) \<Rightarrow>
                      (case CacheService_set cache_key entries None now cs1 of
                         Inl e \<Rightarrow> ([], s\<lparr>cache_service := cs1\<lparr>cache := []\<rparr>, db_manager := d2\<rparr>)
                       | Inr cs2 \<Rightarrow> (entries, s\<lparr>cache_service := cs2, db_manager := d2\<rparr>)))))"

definition fetch_voice_leaderboard ::
  "int option \<Rightarrow> int \<Rightarrow> real \<Rightarrow> service \<Rightarrow> LeaderboardEntry list \<times> service" where
  "fetch_voice_leaderboard guild limit now s =
     (let cache_key = leaderboard_cache_key ''voice_leaderboard'' guild limit in
      case CacheService_get cache_key now (cache_service s) of
        (cached, cs1) \<Rightarrow>
          if cached \<noteq> None \<and> cached \<noteq> Some []
          then (the cached, s\<lparr>cache_service := cs1\<rparr>)
          else
            (case DatabaseManager_get_voice_leaderboard guild limit (py_trunc now) (db_manager s) of
               (Inl e, d1) \<Rightarrow> ([], s\<lparr>cache_service := cs1, db_manager := d1\<rparr>)
             | (Inr raw_data, d1) \<Rightarrow>
                 (case make_entries create_voice_entry (bot_ref s) (py_trunc now) 1 raw_data d1 of
                    (entries, d2) \<Rightarrow>
                      (case CacheService_set cache_key entries (Some 60) now cs1 of
                         Inl e \<Rightarrow> ([], s\<lparr>cache_service := cs1\<lparr>cache := []\<rparr>, db_manager := d2\<rparr>)
                       | Inr cs2 \<Rightarrow> (entries, s\<lparr>cache_service := cs2, db_manager := d2\<rparr>)))))"

text \<open>
  \<open>LeaderboardService.get_message_leaderboard\<close> and \<open>get_voice_leaderboard\<close>: the limit
  defaults to \<open>LEADERBOARD_SIZE\<close> and is capped at 10; an exception of the reset step
  reaches the caller.
\<close>

definition LeaderboardService_get_message_leaderboard ::
  "Config \<Rightarrow> int option \<Rightarrow> int option \<Rightarrow> real \<Rightarrow> service \<Rightarrow>
     (exn + LeaderboardEntry list) \<times> service" where
  "LeaderboardService_get_message_leaderboard cfg guild limit_arg now s =
     (let limit = min (case limit_arg of None \<Rightarrow> LEADERBOARD_SIZE cfg | Some l \<Rightarrow> l) 10 in
      case reset_if_due cfg now s of
        (Inl e, s1) \<Rightarrow> (Inl e, s1)
      | (Inr _, s1) \<Rightarrow>
          (case fetch_message_leaderboard guild limit now s1 of
             (entries, s2) \<Rightarrow> (Inr entries, s2)))"

definition LeaderboardService_get_voice_leaderboard ::
  "Config \<Rightarrow> int option \<Rightarrow> int option \<Rightarrow> real \<Rightarrow> service \<Rightarrow>
     (exn + LeaderboardEntry list) \<times> service" where
  "LeaderboardService_get_voice_leaderboard cfg guild limit_arg now s =
     (let limit = min (case limit_arg of None \<Rightarrow> LEADERBOARD_SIZE cfg | Some l \<Rightarrow> l) 10 in
      case reset_if_due cfg now s of
        (Inl e, s1) \<Rightarrow> (Inl e, s1)
      | (Inr _, s1) \<Rightarrow>
          (case fetch_voice_leaderboard guild limit now s1 of
             (entries, s2) \<Rightarrow> (Inr entries, s2)))"

section \<open>Concrete states used as instances\<close>

definition ex_cache :: "nat CacheService" where
  "ex_cache = \<lparr>max_size = 2, default_ttl = 300,
     cache = [(''a'', \<lparr>entry_value = 1, created_at = 0, ttl = Some 300\<rparr>),
              (''b'', \<lparr>entry_value = 2, created_at = 1, ttl = Some 300\<rparr>)]\<rparr>"

definition empty_db :: database where
  "empty_db = \<lparr>messages = [], voice = [], settings = [], user_cache = [], faults = []\<rparr>"

definition ranking_db :: database where
  "ranking_db = \<lparr>messages =
       [\<lparr>m_user_id = 1, m_guild_id = 7, m_channel_id = 3, m_count = 5, m_last_updated = 10\<rparr>,
        \<lparr>m_user_id = 2, m_guild_id = 7, m_channel_id = 3, m_count = 9, m_last_updated = 11\<rparr>,
        \<lparr>m_user_id = 3, m_guild_id = 7, m_channel_id = 3, m_count = 5, m_last_updated = 12\<rparr>,
        \<lparr>m_user_id = 1, m_guild_id = 8, m_channel_id = 4, m_count = 20, m_last_updated = 13\<rparr>],
     voice =
       [\<lparr>user_id = 1, guild_id = 7, total_time = 100, join_time = None, last_updated = 10\<rparr>,
        \<lparr>user_id = 2, guild_id = 7, total_time = 40, join_time = Some 50, last_updated = 50\<rparr>],
     settings = [], user_cache = [], faults = []\<rparr>"

definition tie_db :: database where
  "tie_db = \<lparr>messages =
       [\<lparr>m_user_id = 3, m_guild_id = 7, m_channel_id = 1, m_count = 5, m_last_updated = 10\<rparr>,
        \<lparr>m_user_id = 1, m_guild_id = 7, m_channel_id = 1, m_count = 5, m_last_updated = 11\<rparr>,
        \<lparr>m_user_id = 2, m_guild_id = 7, m_channel_id = 1, m_count = 5, m_last_updated = 12\<rparr>,
        \<lparr>m_user_id = 5, m_guild_id = 8, m_channel_id = 1, m_count = 5, m_last_updated = 13\<rparr>],
     voice = [], settings = [], user_cache = [], faults = []\<rparr>"

section \<open>Properties of the cache\<close>

lemma evict_drop: "0 \<le> m \<Longrightarrow> evict m d = Inr (drop (length d - nat m) d)"
proof (induction d)
  case Nil then show ?case by simp
next
  case (Cons kv d)
  show ?case
  proof (cases "int (length (kv # d)) > m")
    case True
    then have "length (kv # d) - nat m = Suc (length d - nat m)" using Cons.prems by simp
    then show ?thesis using True Cons by simp
  next
    case False
    then have "length (kv # d) - nat m = 0" by simp
    then show ?thesis using False by simp
  qed
qed

lemma dict_del_not_in: "key \<notin> fst ` set (dict_del key d)"
  by (auto simp: dict_del_def)

lemma length_dict_del: "length (dict_del key d) \<le> length d"
  by (simp add: dict_del_def)

lemma dict_set_fresh: "key \<notin> fst ` set d \<Longrightarrow> dict_set key e d = d @ [(key, e)]"
  by (simp add: dict_set_def)

lemma length_dict_set_mem: "key \<in> fst ` set d \<Longrightarrow> length (dict_set key e d) = length d"
  by (simp add: dict_set_def)

lemma set_cache_eq:
  "0 \<le> max_size c \<Longrightarrow>
   CacheService_set key v ttl_arg now c =
     Inr (c\<lparr>cache := drop (Suc (length (dict_del key (cache c))) - nat (max_size c))
                  (dict_del key (cache c) @ [(key, new_entry v ttl_arg now c)])\<rparr>)"
  by (simp add: CacheService_set_def evict_if_needed_def evict_drop dict_set_fresh dict_del_not_in)

lemma map_of_drop_last:
  "k \<notin> fst ` set xs \<Longrightarrow> n \<le> length xs \<Longrightarrow> map_of (drop n (xs @ [(k, e)])) k = Some e"
proof -
  assume k: "k \<notin> fst ` set xs" and n: "n \<le> length xs"
  have "k \<notin> fst ` set (drop n xs)" using k by (auto dest: in_set_dropD)
  then have "map_of (drop n xs) k = None" by (simp add: map_of_eq_None_iff)
  then show ?thesis using n by (simp add: map_add_def)
qed

lemma set_then_lookup:
  assumes "1 \<le> max_size c"
  shows "\<exists>c'. CacheService_set key v ttl_arg now c = Inr c' \<and>
     map_of (cache c') key = Some (new_entry v ttl_arg now c)"
proof -
  have "Suc (length (dict_del key (cache c))) - nat (max_size c) \<le> length (dict_del key (cache c))"
    using assms by linarith
  then show ?thesis using assms
    by (simp add: set_cache_eq map_of_drop_last dict_del_not_in del: map_of_append drop_append)
qed

lemma dict_del_shorter: "map_of d key = Some e \<Longrightarrow> length (dict_del key d) < length d"
proof -
  assume "map_of d key = Some e"
  then have "(key, e) \<in> set d" by (rule map_of_SomeD)
  then show ?thesis unfolding dict_del_def by (intro length_filter_less[of "(key, e)"]) auto
qed

lemma length_move_to_end: "length (move_to_end key d) \<le> length d"
  using dict_del_shorter[of d key]
  by (fastforce simp: move_to_end_def split: option.splits)

lemma length_dict_set_present:
  "map_of d key = Some e \<Longrightarrow> length (dict_set key e' d) = length d"
  by (auto simp: dict_set_def dest: map_of_SomeD intro: rev_image_eqI)

lemma length_fold_dict_del: "length (fold dict_del ks d) \<le> length d"
proof (induction ks arbitrary: d)
  case Nil then show ?case by simp
next
  case (Cons k ks)
  have "length (fold dict_del ks (dict_del k d)) \<le> length (dict_del k d)" by (rule Cons.IH)
  then show ?case using length_dict_del[of k d] by simp
qed

lemma get_size: "length (cache (snd (CacheService_get key now c))) \<le> length (cache c)"
  using length_move_to_end[of key "cache c"] length_dict_del[of key "cache c"]
  by (simp add: CacheService_get_def split: option.splits)

lemma has_key_size: "length (cache (snd (has_key key now c))) \<le> length (cache c)"
  using length_dict_del[of key "cache c"]
  by (simp add: has_key_def split: option.splits)

lemma delete_size: "length (cache (snd (CacheService_delete key c))) \<le> length (cache c)"
  using length_dict_del[of key "cache c"]
  by (simp add: CacheService_delete_def)

lemma cleanup_size: "length (cache (snd (cleanup_expired now c))) \<le> length (cache c)"
  by (simp add: cleanup_expired_def Let_def length_fold_dict_del)

lemma refresh_size:
  "length (cache (snd (CacheService_refresh key ttl_arg now c))) \<le> length (cache c)"
proof (cases "map_of (cache c) key")
  case None then show ?thesis by (simp add: CacheService_refresh_def)
next
  case (Some e)
  show ?thesis
  proof (cases "is_expired now e")
    case True
    then show ?thesis using Some length_dict_del[of key "cache c"]
      by (simp add: CacheService_refresh_def)
  next
    case False
    have "length (move_to_end key (dict_set key e' (cache c))) \<le> length (cache c)" for e'
      using length_move_to_end[of key "dict_set key e' (cache c)"]
        length_dict_set_present[OF Some, of e'] by simp
    then show ?thesis using Some False by (simp add: CacheService_refresh_def)
  qed
qed

lemma set_size:
  "0 \<le> max_size c \<Longrightarrow>
   \<exists>c'. CacheService_set key v ttl_arg now c = Inr c' \<and> max_size c' = max_size c \<and>
        int (length (cache c')) \<le> max_size c"
  by (auto simp add: set_cache_eq)

lemma set_full_evicts_front:
  assumes "int (length (cache c)) = max_size c" "1 \<le> max_size c" "key \<notin> fst ` set (cache c)"
  shows "CacheService_set key v ttl_arg now c =
     Inr (c\<lparr>cache := tl (cache c) @ [(key, new_entry v ttl_arg now c)]\<rparr>)"
proof -
  have d: "dict_del key (cache c) = cache c"
    using assms(3) by (auto simp: dict_del_def filter_id_conv)
  have n: "Suc (length (cache c)) - nat (max_size c) = 1" using assms(1,2) by linarith
  have ne: "cache c \<noteq> []" using assms(1,2) by auto
  show ?thesis using assms(2) ne by (simp add: set_cache_eq d n drop_Suc del: drop_append)
qed

lemma get_hit_moves_back:
  "map_of (cache c) key = Some e \<Longrightarrow> \<not> is_expired now e \<Longrightarrow>
   cache (snd (CacheService_get key now c)) = dict_del key (cache c) @ [(key, e)]"
  by (simp add: CacheService_get_def move_to_end_def)

lemma dict_set_present:
  assumes "key \<in> fst ` set d"
  shows "map_of (dict_set key e' d) key = Some e' \<and> dict_del key (dict_set key e' d) = dict_del key d"
proof -
  have a: "key \<in> fst ` set xs \<Longrightarrow>
      map_of (map (\<lambda>kv. if fst kv = key then (key, e') else kv) xs) key = Some e'" for xs
    by (induction xs) auto
  have b: "filter (\<lambda>kv. fst kv \<noteq> key) (map (\<lambda>kv. if fst kv = key then (key, e') else kv) xs) =
      filter (\<lambda>kv. fst kv \<noteq> key) xs" for xs :: "('a \<times> 'b) list"
    by (induction xs) auto
  show ?thesis using assms a[of d] b[of d] by (simp add: dict_set_def dict_del_def)
qed

lemma refresh_hit_moves_back:
  assumes "map_of (cache c) key = Some e" and "\<not> is_expired now e"
  shows "CacheService_refresh key ttl_arg now c =
     (True, c\<lparr>cache := dict_del key (cache c) @
        [(key, e\<lparr>created_at := now,
             ttl := Some (real_of_int (case ttl_arg of None \<Rightarrow> default_ttl c | Some t \<Rightarrow> t))\<rparr>)]\<rparr>)"
proof -
  have k: "key \<in> fst ` set (cache c)"
    using assms(1) by (metis map_of_eq_None_iff option.distinct(1))
  show ?thesis
    using assms dict_set_present[OF k]
    by (simp add: CacheService_refresh_def move_to_end_def)
qed


text \<open>
  Claim C4. In a cache that can hold at least one entry (\<open>max_size \<ge> 1\<close>),
  \<open>set(key, v, ttl)\<close> at time \<open>t0\<close> succeeds, and a \<open>get(key)\<close> on the resulting cache
  returns exactly \<open>v\<close> at every time strictly before \<open>t0 + ttl\<close> and \<open>None\<close> at every
  time after \<open>t0 + ttl\<close>, where \<open>ttl\<close> is the given one or, when none is given, the
  cache's \<open>default_ttl\<close>.
\<close>

theorem cache_set_then_get:
  assumes "1 \<le> max_size c"
  shows "\<exists>c'. CacheService_set key v ttl_arg t0 c = Inr c' \<and>
     (\<forall>t. t < t0 + real_of_int (case ttl_arg of None \<Rightarrow> default_ttl c | Some x \<Rightarrow> x)
          \<longrightarrow> fst (CacheService_get key t c') = Some v) \<and>
     (\<forall>t. t > t0 + real_of_int (case ttl_arg of None \<Rightarrow> default_ttl c | Some x \<Rightarrow> x)
          \<longrightarrow> fst (CacheService_get key t c') = None)"
proof -
  from set_then_lookup[OF assms, of key v ttl_arg t0]
  obtain c' where s: "CacheService_set key v ttl_arg t0 c = Inr c'"
    and l: "map_of (cache c') key = Some (new_entry v ttl_arg t0 c)" by blast
  have "fst (CacheService_get key t c') = Some v"
    if "t < t0 + real_of_int (case ttl_arg of None \<Rightarrow> default_ttl c | Some x \<Rightarrow> x)" for t
    using that l by (simp add: CacheService_get_def is_expired_def new_entry_def)
  moreover have "fst (CacheService_get key t c') = None"
    if "t > t0 + real_of_int (case ttl_arg of None \<Rightarrow> default_ttl c | Some x \<Rightarrow> x)" for t
    using that l by (simp add: CacheService_get_def is_expired_def new_entry_def)
  ultimately show ?thesis using s by blast
qed

theorem cache_set_then_get_witness:
  "fst (CacheService_get ''k'' 299
      (projr (CacheService_set ''k'' (7::nat) None 0
         \<lparr>max_size = 1, default_ttl = 300, cache = []\<rparr>))) = Some 7 \<and>
   fst (CacheService_get ''k'' 301
      (projr (CacheService_set ''k'' (7::nat) None 0
         \<lparr>max_size = 1, default_ttl = 300, cache = []\<rparr>))) = None"
proof -
  have m: "1 \<le> max_size \<lparr>max_size = 1, default_ttl = 300, cache = ([] :: (string \<times> nat CacheEntry) list)\<rparr>"
    by simp
  from cache_set_then_get[OF m, of "''k''" 7 None 0]
  show ?thesis by auto
qed

text \<open>
  Claim C9. In a cache with \<open>max_size \<ge> 0\<close> that holds at most \<open>max_size\<close> entries,
  each of get, set, delete, clear, refresh and cleanup leaves at most \<open>max_size\<close>
  entries (set does so whatever the size was before). A set of a new key on a full
  cache deletes the entry at the front of the order and appends the new one; a get that
  hits moves its key to the back of the order, and so does a refresh that hits, which
  also gives the entry its new creation time and TTL.
\<close>

theorem cache_size_bounded:
  assumes "0 \<le> max_size c" and "int (length (cache c)) \<le> max_size c"
  shows "int (length (cache (snd (CacheService_get key now c)))) \<le> max_size c \<and>
     (\<exists>c'. CacheService_set key v ttl_arg now c = Inr c' \<and> max_size c' = max_size c \<and>
            int (length (cache c')) \<le> max_size c) \<and>
     int (length (cache (snd (CacheService_delete key c)))) \<le> max_size c \<and>
     int (length (cache (CacheService_clear c))) \<le> max_size c \<and>
     int (length (cache (snd (CacheService_refresh key ttl_arg now c)))) \<le> max_size c \<and>
     int (length (cache (snd (cleanup_expired now c)))) \<le> max_size c \<and>
     (int (length (cache c)) = max_size c \<and> 1 \<le> max_size c \<and> key \<notin> fst ` set (cache c) \<longrightarrow>
         CacheService_set key v ttl_arg now c =
           Inr (c\<lparr>cache := tl (cache c) @ [(key, new_entry v ttl_arg now c)]\<rparr>)) \<and>
     (map_of (cache c) key = Some e \<and> \<not> is_expired now e \<longrightarrow>
         cache (snd (CacheService_get key now c)) = dict_del key (cache c) @ [(key, e)]) \<and>
     (map_of (cache c) key = Some e \<and> \<not> is_expired now e \<longrightarrow>
         CacheService_refresh key ttl_arg now c =
           (True, c\<lparr>cache := dict_del key (cache c) @
              [(key, e\<lparr>created_at := now,
                   ttl := Some (real_of_int
                     (case ttl_arg of None \<Rightarrow> default_ttl c | Some t \<Rightarrow> t))\<rparr>)]\<rparr>))"
proof -
  have 1: "int (length (cache (snd (CacheService_get key now c)))) \<le> max_size c"
    using get_size[of key now c] assms(2) by linarith
  have 2: "\<exists>c'. CacheService_set key v ttl_arg now c = Inr c' \<and> max_size c' = max_size c \<and>
            int (length (cache c')) \<le> max_size c"
    using assms(1) by (rule set_size)
  have 3: "int (length (cache (snd (CacheService_delete key c)))) \<le> max_size c"
    using delete_size[of key c] assms(2) by linarith
  have 4: "int (length (cache (CacheService_clear c))) \<le> max_size c"
    using assms(1) by (simp add: CacheService_clear_def)
  have 5: "int (length (cache (snd (CacheService_refresh key ttl_arg now c)))) \<le> max_size c"
    using refresh_size[of key ttl_arg now c] assms(2) by linarith
  have 6: "int (length (cache (snd (cleanup_expired now c)))) \<le> max_size c"
    using cleanup_size[of now c] assms(2) by linarith
  have 7: "int (length (cache c)) = max_size c \<and> 1 \<le> max_size c \<and> key \<notin> fst ` set (cache c) \<longrightarrow>
         CacheService_set key v ttl_arg now c =
           Inr (c\<lparr>cache := tl (cache c) @ [(key, new_entry v ttl_arg now c)]\<rparr>)"
    using set_full_evicts_front[of c key v ttl_arg now] by blast
  have 8: "map_of (cache c) key = Some e \<and> \<not> is_expired now e \<longrightarrow>
         cache (snd (CacheService_get key now c)) = dict_del key (cache c) @ [(key, e)]"
    using get_hit_moves_back[of c key e now] by blast
  have 9: "map_of (cache c) key = Some e \<and> \<not> is_expired now e \<longrightarrow>
         CacheService_refresh key ttl_arg now c =
           (True, c\<lparr>cache := dict_del key (cache c) @
              [(key, e\<lparr>created_at := now,
                   ttl := Some (real_of_int
                     (case ttl_arg of None \<Rightarrow> default_ttl c | Some t \<Rightarrow> t))\<rparr>)]\<rparr>)"
    using refresh_hit_moves_back[of c key e now ttl_arg] by blast
  from 1 2 3 4 5 6 7 8 9 show ?thesis by blast
qed

theorem cache_size_bounded_witness:
  "CacheService_set ''c'' 3 None 5 ex_cache =
     Inr (ex_cache\<lparr>cache := [(''b'', \<lparr>entry_value = 2, created_at = 1, ttl = Some 300\<rparr>),
                             (''c'', \<lparr>entry_value = 3, created_at = 5, ttl = Some 300\<rparr>)]\<rparr>) \<and>
   cache (snd (CacheService_get ''a'' 5 ex_cache)) =
     [(''b'', \<lparr>entry_value = 2, created_at = 1, ttl = Some 300\<rparr>),
      (''a'', \<lparr>entry_value = 1, created_at = 0, ttl = Some 300\<rparr>)] \<and>
   int (length (cache (snd (CacheService_refresh ''a'' None 5 ex_cache)))) \<le> 2 \<and>
   cache (snd (CacheService_refresh ''a'' None 5 ex_cache)) =
     [(''b'', \<lparr>entry_value = 2, created_at = 1, ttl = Some 300\<rparr>),
      (''a'', \<lparr>entry_value = 1, created_at = 5, ttl = Some 300\<rparr>)]"
proof -
  have h: "0 \<le> max_size ex_cache" "int (length (cache ex_cache)) \<le> max_size ex_cache"
    by (simp_all add: ex_cache_def)
  note a = cache_size_bounded[OF h, where key = "''a''" and now = 5 and ttl_arg = None
      and e = "\<lparr>entry_value = 1, created_at = 0, ttl = Some 300\<rparr>"]
  note b = cache_size_bounded[OF h, where key = "''c''" and now = 5 and ttl_arg = None and v = 3]
  from a b show ?thesis
    by (simp add: ex_cache_def new_entry_def is_expired_def dict_del_def)
qed

section \<open>Properties of the batched writer\<close>

lemma dict_set_split:
  assumes "distinct (map fst g)" "map_of g k = Some ps"
  shows "\<exists>g1 g2. g = g1 @ (k, ps) # g2 \<and> k \<notin> fst ` set g1 \<and> k \<notin> fst ` set g2 \<and>
           dict_set k v g = g1 @ (k, v) # g2"
proof -
  from assms(2) have "(k, ps) \<in> set g" by (rule map_of_SomeD)
  then obtain g1 g2 where g: "g = g1 @ (k, ps) # g2" by (auto simp: in_set_conv_decomp)
  from assms(1) g have n1: "k \<notin> fst ` set g1" and n2: "k \<notin> fst ` set g2" by auto
  have m1: "map (\<lambda>kv. if fst kv = k then (k, v) else kv) g1 = g1"
    using n1 by (induction g1) auto
  have m2: "map (\<lambda>kv. if fst kv = k then (k, v) else kv) g2 = g2"
    using n2 by (induction g2) auto
  have "dict_set k v g = g1 @ (k, v) # g2"
    unfolding dict_set_def g using m1 m2 by simp
  with g n1 n2 show ?thesis by blast
qed

lemma group_step_None:
  "map_of g (opkey op) = None \<Longrightarrow> group_step op g = g @ [(opkey op, params op)]"
proof -
  assume n: "map_of g (opkey op) = None"
  then have notin: "opkey op \<notin> fst ` set g" by (simp add: map_of_eq_None_iff)
  then have a: "dict_set (opkey op) [] g = g @ [(opkey op, [])]" by (simp add: dict_set_def)
  have b: "map_of (g @ [(opkey op, [])]) (opkey op) = Some []" using n by (simp add: map_add_def)
  have m: "map (\<lambda>kv. if fst kv = opkey op then (opkey op, params op) else kv) g = g"
    using notin by (induction g) auto
  have c: "dict_set (opkey op) (params op) (g @ [(opkey op, [])]) = g @ [(opkey op, params op)]"
    using m by (simp add: dict_set_def)
  show ?thesis unfolding group_step_def Let_def using notin a b c by (simp del: map_of_append)
qed

lemma group_step_Some:
  "map_of g (opkey op) = Some ps \<Longrightarrow> group_step op g = dict_set (opkey op) (ps @ params op) g"
proof -
  assume s: "map_of g (opkey op) = Some ps"
  then have "opkey op \<in> fst ` set g" by (metis map_of_eq_None_iff option.distinct(1))
  then show ?thesis unfolding group_step_def Let_def using s by simp
qed

lemma group_step_props:
  assumes d: "distinct (map fst g)"
  shows "distinct (map fst (group_step op g)) \<and>
       fst ` set (group_step op g) = insert (opkey op) (fst ` set g) \<and>
       map_of (group_step op g) k =
           (if k = opkey op then Some ((case map_of g k of None \<Rightarrow> [] | Some ps \<Rightarrow> ps) @ params op)
            else map_of g k) \<and>
       mset (concat (map snd (group_step op g))) = mset (concat (map snd g)) + mset (params op)"
proof (cases "map_of g (opkey op)")
  case None
  then have notin: "opkey op \<notin> fst ` set g" by (simp add: map_of_eq_None_iff)
  show ?thesis
    using None notin d by (auto simp: group_step_None map_add_def split: option.splits)
next
  case (Some ps)
  from dict_set_split[OF d Some, of "ps @ params op"]
  obtain g1 g2 where g: "g = g1 @ (opkey op, ps) # g2"
    and n1: "opkey op \<notin> fst ` set g1" and n2: "opkey op \<notin> fst ` set g2"
    and ds: "dict_set (opkey op) (ps @ params op) g = g1 @ (opkey op, ps @ params op) # g2"
    by blast
  have gs: "group_step op g = g1 @ (opkey op, ps @ params op) # g2"
    using group_step_Some[OF Some] ds by simp
  have m1: "map_of g1 (opkey op) = None" using n1 by (simp add: map_of_eq_None_iff)
  show ?thesis
    unfolding gs using d m1 unfolding g
    by (auto simp: map_add_def split: option.splits)
qed

lemma fold_group_props:
  "distinct (map fst g) \<Longrightarrow>
   distinct (map fst (fold group_step ops g)) \<and>
   fst ` set (fold group_step ops g) = opkey ` set ops \<union> fst ` set g \<and>
   (\<forall>k. map_of (fold group_step ops g) k =
      (if k \<in> opkey ` set ops \<union> fst ` set g
       then Some ((case map_of g k of None \<Rightarrow> [] | Some ps \<Rightarrow> ps) @
                  concat (map params (filter (\<lambda>op. opkey op = k) ops)))
       else None)) \<and>
   mset (concat (map snd (fold group_step ops g))) =
     mset (concat (map snd g)) + mset (concat (map params ops))"
proof (induction ops arbitrary: g)
  case Nil
  show ?case
  proof (intro conjI allI)
    fix k show "map_of (fold group_step [] g) k =
      (if k \<in> opkey ` set [] \<union> fst ` set g
       then Some ((case map_of g k of None \<Rightarrow> [] | Some ps \<Rightarrow> ps) @
                  concat (map params (filter (\<lambda>op. opkey op = k) [])))
       else None)"
      by (cases "map_of g k") (auto simp: map_of_eq_None_iff dest: map_of_SomeD intro: rev_image_eqI)
  qed (use Nil in simp_all)
next
  case (Cons op ops)
  note st = group_step_props[OF Cons.prems, of op]
  from st have d': "distinct (map fst (group_step op g))" by blast
  note ih = Cons.IH[OF d']
  from st have keys: "fst ` set (group_step op g) = insert (opkey op) (fst ` set g)" by blast
  have lk: "map_of (group_step op g) k =
           (if k = opkey op then Some ((case map_of g k of None \<Rightarrow> [] | Some ps \<Rightarrow> ps) @ params op)
            else map_of g k)" for k
    using group_step_props[OF Cons.prems, of op k] by blast
  from st have ms: "mset (concat (map snd (group_step op g))) = mset (concat (map snd g)) + mset (params op)"
    by blast
  show ?case
  proof (intro conjI allI)
    show "distinct (map fst (fold group_step (op # ops) g))" using ih by simp
    show "fst ` set (fold group_step (op # ops) g) = opkey ` set (op # ops) \<union> fst ` set g"
      using ih keys by auto
    show "mset (concat (map snd (fold group_step (op # ops) g))) =
       mset (concat (map snd g)) + mset (concat (map params (op # ops)))"
      using ih ms by simp
    fix k
    from ih have "map_of (fold group_step ops (group_step op g)) k =
      (if k \<in> opkey ` set ops \<union> fst ` set (group_step op g)
       then Some ((case map_of (group_step op g) k of None \<Rightarrow> [] | Some ps \<Rightarrow> ps) @
                  concat (map params (filter (\<lambda>op. opkey op = k) ops)))
       else None)" by blast
    then show "map_of (fold group_step (op # ops) g) k =
      (if k \<in> opkey ` set (op # ops) \<union> fst ` set g
       then Some ((case map_of g k of None \<Rightarrow> [] | Some ps \<Rightarrow> ps) @
                  concat (map params (filter (\<lambda>op. opkey op = k) (op # ops))))
       else None)"
      unfolding keys lk by (cases "k = opkey op") auto
  qed
qed

lemma executemany_execute_all: "executemany q ps db = execute_all (map (Pair q) ps) db"
  by (induction ps arbitrary: db) (auto split: sum.splits)

lemma execute_all_append:
  "execute_all (xs @ ys) db =
     (case execute_all xs db of (Some e, d) \<Rightarrow> (Some e, d) | (None, d) \<Rightarrow> execute_all ys d)"
  by (induction xs arbitrary: db) (auto split: sum.splits)

lemma run_calls_execute_all:
  "run_calls calls db = execute_all (concat (map (\<lambda>c. map (Pair (fst c)) (snd c)) calls)) db"
proof (induction calls arbitrary: db)
  case Nil then show ?case by simp
next
  case (Cons c calls)
  obtain q ps where c: "c = (q, ps)" by (cases c)
  show ?case
    by (auto simp: c executemany_execute_all execute_all_append Cons.IH split: prod.splits option.splits)
qed

lemma flatten_calls:
  "concat (map (\<lambda>c. map (Pair (fst c)) (snd c)) (executemany_calls ops)) = batch_statements ops"
proof -
  have "concat (map (\<lambda>c. map (Pair (fst c)) (snd c))
          (map (\<lambda>kv. (fst (fst kv), snd kv)) (filter (\<lambda>kv. snd kv \<noteq> []) g))) =
        concat (map (\<lambda>kv. map (Pair (fst (fst kv))) (snd kv)) g)" for g :: "(('a \<times> string) \<times> 'b list) list"
    by (induction g) auto
  then show ?thesis by (simp add: executemany_calls_def batch_statements_def)
qed

lemma group_step_statements:
  assumes d: "distinct (map fst g)"
  shows "mset (concat (map (\<lambda>kv. map (Pair (fst (fst kv))) (snd kv)) (group_step op g))) =
         mset (concat (map (\<lambda>kv. map (Pair (fst (fst kv))) (snd kv)) g)) +
         mset (map (Pair (query op)) (params op))"
proof (cases "map_of g (opkey op)")
  case None
  then show ?thesis by (simp add: group_step_None)
next
  case (Some ps)
  from dict_set_split[OF d Some, of "ps @ params op"]
  obtain g1 g2 where g: "g = g1 @ (opkey op, ps) # g2"
    and ds: "dict_set (opkey op) (ps @ params op) g = g1 @ (opkey op, ps @ params op) # g2"
    by blast
  have gs: "group_step op g = g1 @ (opkey op, ps @ params op) # g2"
    using group_step_Some[OF Some] ds by simp
  show ?thesis unfolding gs by (simp add: g)
qed

lemma fold_group_statements:
  "distinct (map fst g) \<Longrightarrow>
   mset (concat (map (\<lambda>kv. map (Pair (fst (fst kv))) (snd kv)) (fold group_step ops g))) =
   mset (concat (map (\<lambda>kv. map (Pair (fst (fst kv))) (snd kv)) g)) +
   mset (concat (map (\<lambda>op. map (Pair (query op)) (params op)) ops))"
proof (induction ops arbitrary: g)
  case Nil then show ?case by simp
next
  case (Cons op ops)
  have d': "distinct (map fst (group_step op g))"
    using group_step_props[OF Cons.prems, of op] by blast
  show ?case using Cons.IH[OF d'] group_step_statements[OF Cons.prems, of op] by simp
qed

lemma mset_batch_statements:
  "mset (batch_statements ops) = mset (concat (map (\<lambda>op. map (Pair (query op)) (params op)) ops))"
proof -
  have d: "distinct (map fst ([] :: (('a \<times> string) \<times> 'b list) list))" by simp
  show ?thesis using fold_group_statements[OF d, of ops]
    by (simp add: batch_statements_def group_operations_def)
qed

lemma first_keys_fold:
  "fold (\<lambda>x ks. if x \<in> set ks then ks else ks @ [x]) xs ks =
     ks @ filter (\<lambda>x. x \<notin> set ks) (rev (remdups (rev xs)))"
proof (induction xs arbitrary: ks)
  case Nil then show ?case by simp
next
  case (Cons x xs)
  have r0: "remdups (ys @ [x]) = filter (\<lambda>y. y \<noteq> x) (remdups ys) @ [x]" for ys
    by (induction ys) auto
  have r: "rev (remdups (rev xs @ [x])) = x # filter (\<lambda>y. y \<noteq> x) (rev (remdups (rev xs)))"
    by (simp add: r0 rev_filter)
  show ?case
  proof (cases "x \<in> set ks")
    case True
    have "filter (\<lambda>y. y \<notin> set ks) (filter (\<lambda>y. y \<noteq> x) (rev (remdups (rev xs)))) =
          filter (\<lambda>y. y \<notin> set ks) (rev (remdups (rev xs)))"
      using True by (auto intro: filter_cong)
    then show ?thesis using True by (simp add: Cons.IH r)
  next
    case False
    have "filter (\<lambda>y. y \<notin> set (ks @ [x])) (rev (remdups (rev xs))) =
          filter (\<lambda>y. y \<notin> set ks) (filter (\<lambda>y. y \<noteq> x) (rev (remdups (rev xs))))"
      by (auto intro: filter_cong)
    then show ?thesis using False by (simp add: Cons.IH r)
  qed
qed

lemma group_step_keys:
  assumes d: "distinct (map fst g)"
  shows "map fst (group_step op g) =
     (if opkey op \<in> set (map fst g) then map fst g else map fst g @ [opkey op])"
proof (cases "map_of g (opkey op)")
  case None
  then have "opkey op \<notin> fst ` set g" by (simp add: map_of_eq_None_iff)
  then show ?thesis using None by (simp add: group_step_None)
next
  case (Some ps)
  from dict_set_split[OF d Some, of "ps @ params op"]
  obtain g1 g2 where g: "g = g1 @ (opkey op, ps) # g2"
    and ds: "dict_set (opkey op) (ps @ params op) g = g1 @ (opkey op, ps @ params op) # g2"
    by blast
  have gs: "group_step op g = g1 @ (opkey op, ps @ params op) # g2"
    using group_step_Some[OF Some] ds by simp
  show ?thesis unfolding gs by (simp add: g)
qed

lemma fold_group_keys:
  "distinct (map fst g) \<Longrightarrow>
   map fst (fold group_step ops g) =
     fold (\<lambda>x ks. if x \<in> set ks then ks else ks @ [x]) (map opkey ops) (map fst g)"
proof (induction ops arbitrary: g)
  case Nil then show ?case by simp
next
  case (Cons op ops)
  have d': "distinct (map fst (group_step op g))"
    using group_step_props[OF Cons.prems, of op] by blast
  show ?case using Cons.IH[OF d'] group_step_keys[OF Cons.prems, of op] by simp
qed

lemma group_keys_order:
  "map fst (group_operations ops) = rev (remdups (rev (map opkey ops)))"
proof -
  have d: "distinct (map fst ([] :: (('a \<times> string) \<times> 'b list) list))" by simp
  show ?thesis using fold_group_keys[OF d, of ops] by (simp add: group_operations_def first_keys_fold)
qed

lemma group_operations_char:
  "group_operations ops =
     map (\<lambda>k. (k, concat (map params (filter (\<lambda>op. opkey op = k) ops))))
       (rev (remdups (rev (map opkey ops))))"
proof -
  have d: "distinct (map fst ([] :: (('a \<times> string) \<times> 'b list) list))" by simp
  note p0 = fold_group_props[OF d, of ops]
  have dist: "distinct (map fst (group_operations ops))"
    using p0 by (simp add: group_operations_def)
  have m: "map_of (group_operations ops) k =
      (if k \<in> opkey ` set ops
       then Some (concat (map params (filter (\<lambda>op. opkey op = k) ops))) else None)" for k
    using p0[THEN conjunct2, THEN conjunct2, THEN conjunct1, THEN spec, of k]
    by (simp add: group_operations_def)
  have g: "g = map (\<lambda>k. (k, the (map_of g k))) (map fst g)" if dg: "distinct (map fst g)"
    for g :: "(('a \<times> string) \<times> 'b list) list"
  proof -
    have "(\<lambda>k. (k, the (map_of g k))) (fst kv) = kv" if "kv \<in> set g" for kv
      using map_of_is_SomeI[OF dg, of "fst kv" "snd kv"] that by simp
    then have "map (\<lambda>kv. (\<lambda>k. (k, the (map_of g k))) (fst kv)) g = g"
      by (intro map_idI) simp
    then show ?thesis by (simp add: comp_def)
  qed
  have "group_operations ops =
      map (\<lambda>k. (k, the (map_of (group_operations ops) k))) (map fst (group_operations ops))"
    using g[OF dist] .
  also have "\<dots> = map (\<lambda>k. (k, the (map_of (group_operations ops) k))) (rev (remdups (rev (map opkey ops))))"
    by (simp only: group_keys_order)
  also have "\<dots> = map (\<lambda>k. (k, concat (map params (filter (\<lambda>op. opkey op = k) ops))))
       (rev (remdups (rev (map opkey ops))))"
    by (rule map_cong) (auto simp: m)
  finally show ?thesis .
qed

text \<open>
  Claim C8. For every list of queued operations, the batch groups them by the pair
  (query, operation type): there is one group for each key that occurs, in the order in
  which the keys first occur, and the group of a key holds the parameter tuples of all
  operations with that key, in queue order. One flush executes every group that is not
  empty with one \<open>executemany\<close>: on a connection that can be opened it executes the
  statements of \<open>batch_statements\<close>, group after group, each tuple with the query of its
  group, up to the first execution that raises, and these are exactly the queued tuples,
  each once and each with the query of its own operation.
\<close>
theorem batch_flush_grouped:
  "group_operations ops =
     map (\<lambda>k. (k, concat (map params (filter (\<lambda>op. (query op, operation_type op) = k) ops))))
       (rev (remdups (rev (map (\<lambda>op. (query op, operation_type op)) ops)))) \<and>
   distinct (map fst (group_operations ops)) \<and>
   executemany_calls ops =
     map (\<lambda>kv. (fst (fst kv), snd kv)) (filter (\<lambda>kv. snd kv \<noteq> []) (group_operations ops)) \<and>
   run_calls (executemany_calls ops) db1 = execute_all (batch_statements ops) db1 \<and>
   mset (batch_statements ops) =
     mset (concat (map (\<lambda>op. map (Pair (query op)) (params op)) ops)) \<and>
   execute_batch_operations ops db =
     (case get_connection db of
        (True, db1) \<Rightarrow> (Inl OperationalError, db1)
      | (False, db1) \<Rightarrow>
          (case execute_all (batch_statements ops) db1 of
             (Some e, db2) \<Rightarrow> (Inl e, db2)
           | (None, db2) \<Rightarrow> (Inr (), db2)))"
proof -
  have d: "distinct (map fst ([] :: ((statement \<times> string) \<times> sqlval list list) list))" by simp
  have 1: "distinct (map fst (group_operations ops))"
    using fold_group_props[OF d, of ops] by (simp add: group_operations_def)
  have 2: "run_calls (executemany_calls ops) d1 = execute_all (batch_statements ops) d1" for d1
    by (simp add: run_calls_execute_all flatten_calls)
  have 3: "execute_batch_operations ops db =
     (case get_connection db of
        (True, db1) \<Rightarrow> (Inl OperationalError, db1)
      | (False, db1) \<Rightarrow>
          (case execute_all (batch_statements ops) db1 of
             (Some e, db2) \<Rightarrow> (Inl e, db2)
           | (None, db2) \<Rightarrow> (Inr (), db2)))"
    by (simp add: execute_batch_operations_def 2 split: prod.splits bool.splits)
  show ?thesis
    using group_operations_char[of ops] 1 2[of db1] mset_batch_statements[of ops] 3
    by (simp add: executemany_calls_def)
qed

theorem batch_flush_grouped_witness:
  "group_operations [increment_message_count 1 2 3 10, update_voice_join 1 2 11,
       increment_message_count 4 2 3 12] =
     [((InsertMessage, ''update''), [[I 1, I 2, I 3, I 1, I 2, I 10], [I 4, I 2, I 3, I 4, I 2, I 12]]),
      ((InsertVoice, ''update''), [[I 1, I 2, I 1, I 2, I 11, I 11]])] \<and>
   execute_batch_operations [increment_message_count 1 2 3 10, update_voice_join 1 2 11,
       increment_message_count 4 2 3 12] empty_db =
     (Inr (), empty_db\<lparr>
        messages := [\<lparr>m_user_id = 1, m_guild_id = 2, m_channel_id = 3, m_count = 1, m_last_updated = 10\<rparr>,
                     \<lparr>m_user_id = 4, m_guild_id = 2, m_channel_id = 3, m_count = 1, m_last_updated = 12\<rparr>],
        voice := [\<lparr>user_id = 1, guild_id = 2, total_time = 0, join_time = Some 11, last_updated = 11\<rparr>]\<rparr>)"
  using batch_flush_grouped[of "[increment_message_count 1 2 3 10, update_voice_join 1 2 11,
       increment_message_count 4 2 3 12]" empty_db empty_db]
  by (simp add: increment_message_count_def update_voice_join_def batch_statements_def
      get_connection_def empty_db_def insert_or_replace_def select_message_def select_voice_def
      message_key_def voice_key_def)

section \<open>Counting messages\<close>

lemma find_insert_or_replace:
  "find (\<lambda>r. key r = k) (insert_or_replace key r rows) =
     (if key r = k then Some r else find (\<lambda>r. key r = k) rows)"
proof -
  have a: "find (\<lambda>x. key x = k) (filter (\<lambda>x. key x \<noteq> key r) rows) =
        (if key r = k then None else find (\<lambda>x. key x = k) rows)"
    by (induction rows) auto
  have b: "find P (xs @ ys) = (case find P xs of None \<Rightarrow> find P ys | Some x \<Rightarrow> Some x)"
    for P and xs ys :: "'a list"
    by (induction xs) auto
  show ?thesis unfolding insert_or_replace_def
    by (auto simp: a b split: option.splits)
qed

lemma execute_inc:
  "\<exists>db'. execute InsertMessage (inc_params (u', g', c, t)) db = Inr db' \<and>
      faults db' = faults db \<and>
      message_count u g db' = message_count u g db + (if (u', g') = (u, g) then 1 else 0)"
proof -
  let ?r = "\<lparr>m_user_id = u', m_guild_id = g', m_channel_id = c,
              m_count = (case select_message u' g' db of None \<Rightarrow> 0 | Some r \<Rightarrow> m_count r) + 1,
              m_last_updated = t\<rparr>"
  let ?db = "db\<lparr>messages := insert_or_replace message_key ?r (messages db)\<rparr>"
  have e: "execute InsertMessage (inc_params (u', g', c, t)) db = Inr ?db"
    by (simp add: inc_params_def)
  have k: "message_key \<lparr>m_user_id = a, m_guild_id = b, m_channel_id = c,
      m_count = n, m_last_updated = t\<rparr> = (a, b)" for a b n
    by (simp add: message_key_def)
  have s: "select_message u g ?db = (if (u', g') = (u, g) then Some ?r else select_message u g db)"
    by (simp add: select_message_def find_insert_or_replace k)
  have "message_count u g ?db = message_count u g db + (if (u', g') = (u, g) then 1 else 0)"
    unfolding message_count_def s by (auto simp: message_count_def)
  then show ?thesis using e by simp
qed

lemma executemany_inc:
  "\<exists>db'. executemany InsertMessage (map inc_params xs) db = (None, db') \<and>
      faults db' = faults db \<and>
      message_count u g db' = message_count u g db + hits u g xs"
proof (induction xs arbitrary: db)
  case Nil
  then show ?case by (simp add: hits_def)
next
  case (Cons x xs)
  obtain u' g' c t where x: "x = (u', g', c, t)" by (cases x) auto
  from execute_inc[of u' g' c t db u g] obtain db1 where
    e: "execute InsertMessage (inc_params x) db = Inr db1" and f: "faults db1 = faults db"
    and m: "message_count u g db1 = message_count u g db + (if (u', g') = (u, g) then 1 else 0)"
    unfolding x by blast
  from Cons.IH[of db1] obtain db2 where
    e2: "executemany InsertMessage (map inc_params xs) db1 = (None, db2)" and f2: "faults db2 = faults db1"
    and m2: "message_count u g db2 = message_count u g db1 + hits u g xs" by blast
  have h: "hits u g (x # xs) = (if (u', g') = (u, g) then 1 else 0) + hits u g xs"
    by (simp add: hits_def x)
  show ?case using e e2 f f2 m m2 h by simp
qed

lemma group_inc_ops:
  "fold group_step (map inc_op xs) [((InsertMessage, ''update''), acc)] =
     [((InsertMessage, ''update''), acc @ map inc_params xs)]"
proof (induction xs arbitrary: acc)
  case Nil then show ?case by simp
next
  case (Cons x xs)
  have "group_step (inc_op x) [((InsertMessage, ''update''), acc)] =
        [((InsertMessage, ''update''), acc @ [inc_params x])]"
    by (cases x) (simp add: group_step_def inc_op_def inc_params_def increment_message_count_def
        dict_set_def Let_def)
  then show ?case using Cons.IH[of "acc @ [inc_params x]"] by simp
qed

lemma calls_inc_ops:
  "xs \<noteq> [] \<Longrightarrow> executemany_calls (map inc_op xs) = [(InsertMessage, map inc_params xs)]"
proof -
  assume ne: "xs \<noteq> []"
  then obtain x xs' where xs: "xs = x # xs'" by (cases xs) auto
  have "group_step (inc_op x) [] = [((InsertMessage, ''update''), [inc_params x])]"
    by (cases x) (simp add: group_step_def inc_op_def inc_params_def increment_message_count_def
        dict_set_def Let_def)
  then have "group_operations (map inc_op xs) =
      [((InsertMessage, ''update''), map inc_params xs)]"
    unfolding group_operations_def xs using group_inc_ops[of xs' "[inc_params x]"] by simp
  then show ?thesis using ne by (simp add: executemany_calls_def)
qed

lemma process_round_inc:
  assumes "faults db = []"
  shows "faults (process_round (map inc_op xs) db) = [] \<and>
     message_count u g (process_round (map inc_op xs) db) = message_count u g db + hits u g xs"
proof (cases "xs = []")
  case True
  then show ?thesis using assms by (simp add: process_round_def hits_def)
next
  case False
  from executemany_inc[of xs db u g] obtain db' where
    e: "executemany InsertMessage (map inc_params xs) db = (None, db')" and f: "faults db' = faults db"
    and m: "message_count u g db' = message_count u g db + hits u g xs" by blast
  have gc: "get_connection db = (False, db)" using assms by (simp add: get_connection_def)
  have "execute_batch_operations (map inc_op xs) db = (Inr (), db')"
    using False e by (simp add: execute_batch_operations_def gc calls_inc_ops)
  then show ?thesis using False f m assms by (simp add: process_round_def)
qed

lemma process_batches_inc:
  assumes "faults db = []"
  shows "faults (process_batch_operations (map (map inc_op) xss) db) = [] \<and>
     message_count u g (process_batch_operations (map (map inc_op) xss) db) =
       message_count u g db + hits u g (concat xss)"
  using assms
proof (induction xss arbitrary: db)
  case Nil
  then show ?case by (simp add: process_batch_operations_def hits_def)
next
  case (Cons xs xss)
  note r = process_round_inc[OF Cons.prems, of xs u g]
  from r have f: "faults (process_round (map inc_op xs) db) = []" by blast
  note ih = Cons.IH[OF f]
  have h: "hits u g (concat (xs # xss)) = hits u g xs + hits u g (concat xss)"
    by (simp add: hits_def)
  show ?case using r ih h by (simp add: process_batch_operations_def)
qed

lemma concat_eq_map:
  "concat bs = map f xs \<Longrightarrow> \<exists>xss. bs = map (map f) xss \<and> concat xss = xs"
proof (induction bs arbitrary: xs)
  case Nil
  then show ?case by (intro exI[of _ "[]"]) simp
next
  case (Cons b bs)
  from Cons.prems have "b @ concat bs = map f xs" by simp
  then obtain ys zs where xs: "xs = ys @ zs" and b: "b = map f ys" and c: "concat bs = map f zs"
    by (auto simp: append_eq_map_conv)
  from Cons.IH[OF c] obtain xss where "bs = map (map f) xss" "concat xss = zs" by blast
  then show ?case using xs b by (intro exI[of _ "ys # xss"]) simp
qed

text \<open>
  Claim C1. When no database failure occurs and there is no row for user \<open>u\<close> in guild
  \<open>g\<close>, then after \<open>N\<close> calls of \<open>increment_message_count\<close> for \<open>(u, g)\<close> (with any
  channels and times), flushed by the batch writer in any division into batches, the
  stored count of \<open>(u, g)\<close> is exactly \<open>N\<close>.
\<close>

theorem increment_n_times_yields_n:
  assumes "faults db = []"
    and "select_message u g db = None"
    and "concat batches = map (\<lambda>ct. increment_message_count u g (fst ct) (snd ct)) cts"
  shows "message_count u g (process_batch_operations batches db) = int (length cts) \<and>
     (cts = [] \<or> (\<exists>r. select_message u g (process_batch_operations batches db) = Some r \<and>
                     m_count r = int (length cts)))"
proof -
  let ?xs = "map (\<lambda>ct. (u, g, fst ct, snd ct)) cts"
  have "concat batches = map inc_op ?xs" using assms(3) by (simp add: inc_op_def split_beta)
  from concat_eq_map[OF this] obtain xss where b: "batches = map (map inc_op) xss"
    and c: "concat xss = ?xs" by blast
  have h: "hits u g ?xs = int (length cts)" by (simp add: hits_def)
  have z: "message_count u g db = 0" using assms(2) by (simp add: message_count_def)
  from process_batches_inc[OF assms(1), of xss u g]
  have m: "message_count u g (process_batch_operations batches db) = int (length cts)"
    unfolding b c h z by simp
  have "\<exists>r. select_message u g (process_batch_operations batches db) = Some r \<and>
                     m_count r = int (length cts)" if "cts \<noteq> []"
  proof (cases "select_message u g (process_batch_operations batches db)")
    case None
    then have "message_count u g (process_batch_operations batches db) = 0"
      by (simp add: message_count_def)
    then show ?thesis using m that by simp
  next
    case (Some r)
    then show ?thesis using m by (simp add: message_count_def)
  qed
  then show ?thesis using m by blast
qed

theorem increment_n_times_yields_n_witness:
  "message_count 1 2
     (process_batch_operations
        [[increment_message_count 1 2 5 100, increment_message_count 1 2 5 101],
         [increment_message_count 1 2 6 102]] empty_db) = 3"
proof -
  have a: "faults empty_db = []" "select_message 1 2 empty_db = None"
    by (simp_all add: empty_db_def select_message_def)
  have c: "concat [[increment_message_count 1 2 5 100, increment_message_count 1 2 5 101],
         [increment_message_count 1 2 6 102]] =
       map (\<lambda>ct. increment_message_count 1 2 (fst ct) (snd ct)) [(5, 100), (5, 101), (6, 102)]"
    by simp
  from increment_n_times_yields_n[OF a c] show ?thesis by simp
qed

section \<open>Ranking\<close>

lemma sorted_order_by_desc: "sorted_wrt (\<lambda>a b. v a \<ge> v b) (order_by_desc v rows)"
proof -
  have "sorted (map (\<lambda>r. - v r) (sort_key (\<lambda>r. - v r) rows))" by (rule sorted_sort_key)
  then show ?thesis unfolding order_by_desc_def
    by (simp add: sorted_map)
qed

lemma order_by_desc_stable:
  "filter (\<lambda>r. v r = k) (order_by_desc v rows) = filter (\<lambda>r. v r = k) rows"
  using sort_key_stable[of "\<lambda>r. - v r" "- k" rows] by (simp add: order_by_desc_def)

lemma mset_order_by_desc: "mset (order_by_desc v rows) = mset rows"
  by (simp add: order_by_desc_def)

lemma top_k:
  assumes "0 \<le> k"
  shows "int (length (sql_limit k (order_by_desc v rows))) \<le> k \<and>
     sorted_wrt (\<lambda>a b. v a \<ge> v b) (sql_limit k (order_by_desc v rows)) \<and>
     sql_limit k (order_by_desc v rows) = take (nat k) (order_by_desc v rows)"
proof -
  have "sorted_wrt (\<lambda>a b. v a \<ge> v b) (take (nat k) (order_by_desc v rows))"
    using sorted_order_by_desc[of v rows] by (rule sorted_wrt_take)
  then show ?thesis using assms by (simp add: sql_limit_def)
qed

lemma execute_query_read:
  "execute_query (\<lambda>d. (f d, d)) db =
     (case faults db of
        [] \<Rightarrow> (Inr (f db), db)
      | True # fs \<Rightarrow> (Inl OperationalError, db\<lparr>faults := fs\<rparr>)
      | False # fs \<Rightarrow> (Inr (f (db\<lparr>faults := fs\<rparr>)), db\<lparr>faults := fs\<rparr>))"
  by (auto simp: execute_query_def get_connection_def split: list.splits bool.splits)

lemma candidates_faults [simp]:
  "message_candidates guild (db\<lparr>faults := fs\<rparr>) = message_candidates guild db"
  "voice_candidates guild now (db\<lparr>faults := fs\<rparr>) = voice_candidates guild now db"
  by (simp_all add: message_candidates_def voice_candidates_def split: option.splits)

lemma message_leaderboard_result:
  "fst (DatabaseManager_get_message_leaderboard guild limit db) = Inl OperationalError \<or>
   fst (DatabaseManager_get_message_leaderboard guild limit db) =
     Inr (sql_limit limit (order_by_desc snd (message_candidates guild db)))"
  by (auto simp: DatabaseManager_get_message_leaderboard_def execute_query_read
      split: list.splits bool.splits)

lemma voice_leaderboard_result:
  "fst (DatabaseManager_get_voice_leaderboard guild limit now db) = Inl OperationalError \<or>
   fst (DatabaseManager_get_voice_leaderboard guild limit now db) =
     Inr (sql_limit limit (order_by_desc snd (voice_candidates guild now db)))"
  by (auto simp: DatabaseManager_get_voice_leaderboard_def execute_query_read
      split: list.splits bool.splits)

lemma top_k_of_query:
  "0 \<le> k \<Longrightarrow> top_k_of k candidates (sql_limit k (order_by_desc snd candidates))"
  using top_k[of k snd candidates] sorted_order_by_desc[of snd candidates]
    order_by_desc_stable[of snd _ candidates] mset_order_by_desc[of snd candidates]
  by (intro conjI exI[of _ "order_by_desc snd candidates"]) auto

text \<open>
  Claim C2. For every state of the tables and every limit \<open>K \<ge> 0\<close>, the message and
  the voice leaderboard query (for one guild, or summed over all guilds) either raises
  the database's error or returns at most \<open>K\<close> rows in descending order of the ranking
  value: the first \<open>K\<close> rows of a descending rearrangement of the ranked rows in which
  rows of equal value keep the order in which they reach the sort (storage order for
  the query of one guild, ascending \<open>user_id\<close> for the query summed over all guilds).
\<close>
theorem leaderboard_top_k_sorted:
  assumes "0 \<le> limit"
  shows "(case fst (DatabaseManager_get_message_leaderboard guild limit db) of
            Inl e \<Rightarrow> e = OperationalError
          | Inr rows \<Rightarrow> top_k_of limit (message_candidates guild db) rows) \<and>
         (case fst (DatabaseManager_get_voice_leaderboard guild limit now db) of
            Inl e \<Rightarrow> e = OperationalError
          | Inr rows \<Rightarrow> top_k_of limit (voice_candidates guild now db) rows)"
  using message_leaderboard_result[of guild limit db]
    voice_leaderboard_result[of guild limit now db]
    top_k_of_query[OF assms]
  by (auto split: sum.splits)

theorem leaderboard_top_k_sorted_witness:
  "fst (DatabaseManager_get_message_leaderboard (Some 7) 2 ranking_db) = Inr [(2, 9), (1, 5)] \<and>
   fst (DatabaseManager_get_message_leaderboard None 2 ranking_db) = Inr [(1, 25), (2, 9)] \<and>
   fst (DatabaseManager_get_voice_leaderboard (Some 7) 2 150 ranking_db) = Inr [(2, 140), (1, 100)] \<and>
   fst (DatabaseManager_get_message_leaderboard None 2 tie_db) = Inr [(1, 5), (2, 5)] \<and>
   fst (DatabaseManager_get_message_leaderboard (Some 7) 2 tie_db) = Inr [(3, 5), (1, 5)] \<and>
   (case fst (DatabaseManager_get_message_leaderboard (Some 7) 2 ranking_db) of
            Inl e \<Rightarrow> e = OperationalError
          | Inr rows \<Rightarrow> top_k_of 2 (message_candidates (Some 7) ranking_db) rows)"
proof -
  have l: "(0::int) \<le> 2" by simp
  have e: "fst (DatabaseManager_get_message_leaderboard (Some 7) 2 ranking_db) = Inr [(2, 9), (1, 5)]"
    "fst (DatabaseManager_get_message_leaderboard None 2 ranking_db) = Inr [(1, 25), (2, 9)]"
    "fst (DatabaseManager_get_voice_leaderboard (Some 7) 2 150 ranking_db) = Inr [(2, 140), (1, 100)]"
    "fst (DatabaseManager_get_message_leaderboard None 2 tie_db) = Inr [(1, 5), (2, 5)]"
    "fst (DatabaseManager_get_message_leaderboard (Some 7) 2 tie_db) = Inr [(3, 5), (1, 5)]"
    by (simp_all add: tie_db_def DatabaseManager_get_message_leaderboard_def DatabaseManager_get_voice_leaderboard_def
        execute_query_def get_connection_def ranking_db_def message_candidates_def voice_candidates_def
        group_by_sum_def order_by_desc_def sql_limit_def current_total_def)
  from leaderboard_top_k_sorted[OF l, where guild = "Some 7" and db = ranking_db and now = 150]
  have "case fst (DatabaseManager_get_message_leaderboard (Some 7) 2 ranking_db) of
            Inl e \<Rightarrow> e = OperationalError
          | Inr rows \<Rightarrow> top_k_of 2 (message_candidates (Some 7) ranking_db) rows"
    by (rule conjunct1)
  with e show ?thesis by simp
qed

section \<open>Voice time\<close>




lemma voice_key_simp [simp]:
  "voice_key \<lparr>user_id = a, guild_id = b, total_time = n, join_time = j, last_updated = t\<rparr> = (a, b)"
  by (simp add: voice_key_def)







end
